theory Spec2Isabelle
  imports Main
begin

section \<open>JavaScript values, arrays and errors\<close>

text \<open>
  The numbers of JavaScript are the IEEE 754 double-precision values. A finite double is
  an integer multiple of a power of two: \<open>Fin m e\<close> stands for \<open>m * 2 ^ e\<close>, with
  \<open>m\<close> odd, so that every value has one representation; \<open>Fin 0 0\<close> is \<open>+0\<close>.
  The other values are \<open>-0\<close>, the two infinities and \<open>NaN\<close>.
\<close>

datatype number = Fin int int | NegZero | PosInf | NegInf | NaN

text \<open>The number of binary digits of a positive integer.\<close>

function bits :: "int \<Rightarrow> int" where
  "bits n = (if n \<le> 0 then 0 else 1 + bits (n div 2))"
  by pat_completeness auto
termination
  by (relation "measure nat") auto

declare bits.simps [simp del]

text \<open>The representation with an odd mantissa.\<close>

function canon :: "int \<Rightarrow> int \<Rightarrow> number" where
  "canon m e = (if m \<noteq> 0 \<and> even m then canon (m div 2) (e + 1) else Fin m e)"
  by pat_completeness auto
termination
  by (relation "measure (\<lambda>(m, e). nat \<bar>m\<bar>)") auto

declare canon.simps [simp del]

text \<open>
  \<open>a / 2 ^ s\<close> rounded to the nearest integer, a tie going to the even neighbour
  (the rounding mode of JavaScript arithmetic).
\<close>

definition nearest_even :: "int \<Rightarrow> nat \<Rightarrow> int" where
  "nearest_even a s =
     (let f = a div 2 ^ s; r = a mod 2 ^ s; half = 2 ^ (s - 1)
      in if s = 0 then a
         else if r < half then f
         else if half < r then f + 1
         else if even f then f else f + 1)"

text \<open>
  The double nearest to the exact value \<open>M * 2 ^ e\<close>, \<open>M \<noteq> 0\<close>. The value lies in
  \<open>[2 ^ E, 2 ^ (E + 1))\<close>; a double there is a multiple of \<open>2 ^ q\<close> with
  \<open>q = E - 52\<close> (53 significant digits), and of \<open>2 ^ - 1074\<close> in the subnormal range.
  A result of \<open>2 ^ 1024\<close> or more is an infinity; a result that rounds to nothing is a
  zero with the sign of the value.
\<close>

definition round_fin :: "int \<Rightarrow> int \<Rightarrow> number" where
  "round_fin M e =
     (let E = bits \<bar>M\<bar> - 1 + e;
          q = max (E - 52) (- 1074)
      in if q \<le> e then (if 1024 \<le> E then (if 0 < M then PosInf else NegInf) else canon M e)
         else
           let r = nearest_even \<bar>M\<bar> (nat (q - e))
           in if 1024 < bits r + q then (if 0 < M then PosInf else NegInf)
              else if r = 0 then (if 0 < M then Fin 0 0 else NegZero)
              else canon (if 0 < M then r else - r) q)"

text \<open>The double that an integer literal denotes.\<close>

definition dbl :: "int \<Rightarrow> number" where
  "dbl n = (if n = 0 then Fin 0 0 else round_fin n 0)"

text \<open>
  \<open>x + y\<close> on numbers: \<open>NaN\<close> is absorbing, the sum of the two infinities of opposite
  sign is \<open>NaN\<close>, \<open>-0\<close> is neutral (and \<open>-0 + -0\<close> is \<open>-0\<close>), an exact sum of
  zero is \<open>+0\<close>, and any other exact sum is rounded.
\<close>

fun num_add :: "number \<Rightarrow> number \<Rightarrow> number" where
  "num_add NaN y = NaN"
| "num_add x NaN = NaN"
| "num_add PosInf NegInf = NaN"
| "num_add NegInf PosInf = NaN"
| "num_add PosInf y = PosInf"
| "num_add x PosInf = PosInf"
| "num_add NegInf y = NegInf"
| "num_add x NegInf = NegInf"
| "num_add NegZero y = y"
| "num_add x NegZero = x"
| "num_add (Fin m1 e1) (Fin m2 e2) =
     (let e = min e1 e2; M = m1 * 2 ^ nat (e1 - e) + m2 * 2 ^ nat (e2 - e)
      in if M = 0 then Fin 0 0 else round_fin M e)"

fun negative :: "number \<Rightarrow> bool" where
  "negative (Fin m e) = (m < 0)"
| "negative NegZero = True"
| "negative PosInf = False"
| "negative NegInf = True"
| "negative NaN = False"

fun is_zero :: "number \<Rightarrow> bool" where
  "is_zero (Fin m e) = (m = 0)"
| "is_zero NegZero = True"
| "is_zero _ = False"

fun is_inf :: "number \<Rightarrow> bool" where
  "is_inf PosInf = True"
| "is_inf NegInf = True"
| "is_inf _ = False"

text \<open>
  \<open>x * y\<close> on numbers: \<open>NaN\<close> is absorbing, an infinity times a zero is \<open>NaN\<close>, the
  sign of any other product is the product of the signs, and an exact product other than
  zero is rounded.
\<close>

fun num_mul :: "number \<Rightarrow> number \<Rightarrow> number" where
  "num_mul NaN y = NaN"
| "num_mul x NaN = NaN"
| "num_mul (Fin m1 e1) (Fin m2 e2) =
     (if m1 = 0 \<or> m2 = 0 then (if (m1 < 0) \<noteq> (m2 < 0) then NegZero else Fin 0 0)
      else round_fin (m1 * m2) (e1 + e2))"
| "num_mul x y =
     (if (is_inf x \<and> is_zero y) \<or> (is_zero x \<and> is_inf y) then NaN
      else if is_inf x \<or> is_inf y then (if negative x \<noteq> negative y then NegInf else PosInf)
      else (if negative x \<noteq> negative y then NegZero else Fin 0 0))"

text \<open>
  The cells of a matrix are JavaScript values. The model keeps the two kinds the library
  can store in a cell: a number, and \<open>undefined\<close> (what a read past the end of an
  array, or of a hole, gives).
\<close>

datatype jsval = Num number | Undefined

text \<open>The number that an integer literal denotes, as a value.\<close>

abbreviation N :: "int \<Rightarrow> jsval" where
  "N k \<equiv> Num (dbl k)"

text \<open>
  The library throws strings; the runtime throws a \<open>TypeError\<close> when a property of
  \<open>undefined\<close> is read or written.
\<close>

datatype error = TypeError | Throw string

type_synonym grid = "jsval list list"

text \<open>The values that count as false: the two zeros, \<open>NaN\<close> and \<open>undefined\<close>.\<close>

fun truthy :: "jsval \<Rightarrow> bool" where
  "truthy (Num n) = (\<not> is_zero n \<and> n \<noteq> NaN)"
| "truthy Undefined = False"

definition js_or :: "jsval \<Rightarrow> jsval \<Rightarrow> jsval" where
  "js_or a b = (if truthy a then a else b)"

text \<open>\<open>+\<close> and \<open>*\<close> turn \<open>undefined\<close> into \<open>NaN\<close>.\<close>

fun js_add :: "jsval \<Rightarrow> jsval \<Rightarrow> jsval" where
  "js_add (Num a) (Num b) = Num (num_add a b)"
| "js_add _ _ = Num NaN"

fun js_mul :: "jsval \<Rightarrow> jsval \<Rightarrow> jsval" where
  "js_mul (Num a) (Num b) = Num (num_mul a b)"
| "js_mul _ _ = Num NaN"

text \<open>\<open>xs[i]\<close>: a read past the end gives \<open>undefined\<close>.\<close>

definition js_get :: "jsval list \<Rightarrow> nat \<Rightarrow> jsval" where
  "js_get xs i = (if i < length xs then xs ! i else Undefined)"

text \<open>
  \<open>xs[i] = v\<close>: JavaScript extends the array when \<open>i\<close> is past its end and leaves
  holes below \<open>i\<close>. \<open>pad\<close> is what a hole holds: \<open>Undefined\<close> in a row. In the array
  of rows a hole is written as the empty row; the only loops that make such holes (in
  \<open>zero\<close> and in the constructor) count down to index 0 and assign every one of them
  before they end (\<open>for_down_put\<close> below: the result does not depend on \<open>pad\<close>).
\<close>

definition arr_put :: "'a \<Rightarrow> 'a list \<Rightarrow> nat \<Rightarrow> 'a \<Rightarrow> 'a list" where
  "arr_put pad xs i v =
     (if i < length xs then xs[i := v] else xs @ replicate (i - length xs) pad @ [v])"

definition js_put :: "jsval list \<Rightarrow> nat \<Rightarrow> jsval \<Rightarrow> jsval list" where
  "js_put xs i v = arr_put Undefined xs i v"

text \<open>
  \<open>g[x][y]\<close> and \<open>g[x][y] = v\<close> on the array of rows: when \<open>g[x]\<close> is
  \<open>undefined\<close> the runtime throws a \<open>TypeError\<close>.
\<close>

definition grid_read :: "grid \<Rightarrow> nat \<Rightarrow> nat \<Rightarrow> error + jsval" where
  "grid_read g x y = (if x < length g then Inr (js_get (g ! x) y) else Inl TypeError)"

definition grid_write :: "grid \<Rightarrow> nat \<Rightarrow> nat \<Rightarrow> jsval \<Rightarrow> error + grid" where
  "grid_write g x y v =
     (if x < length g then Inr (g[x := js_put (g ! x) y v]) else Inl TypeError)"

text \<open>Sequencing: an exception ends the computation.\<close>

definition andThen :: "error + 'a \<Rightarrow> ('a \<Rightarrow> error + 'b) \<Rightarrow> error + 'b" where
  "andThen m f = (case m of Inl e \<Rightarrow> Inl e | Inr x \<Rightarrow> f x)"

text \<open>
  The two loops of the library: \<open>for(i = n; i--; ) body\<close> runs the body at
  \<open>n - 1, ..., 0\<close>, and \<open>for(i = i0; i < n; i++) body\<close> at \<open>i0, ..., n - 1\<close>.
\<close>

fun for_down :: "nat \<Rightarrow> (nat \<Rightarrow> 's \<Rightarrow> error + 's) \<Rightarrow> 's \<Rightarrow> error + 's" where
  "for_down 0 body s = Inr s"
| "for_down (Suc i) body s =
     (case body i s of Inl e \<Rightarrow> Inl e | Inr s' \<Rightarrow> for_down i body s')"

function for_up :: "nat \<Rightarrow> nat \<Rightarrow> (nat \<Rightarrow> 's \<Rightarrow> error + 's) \<Rightarrow> 's \<Rightarrow> error + 's" where
  "for_up i n body s =
     (if i < n
      then (case body i s of Inl e \<Rightarrow> Inl e | Inr s' \<Rightarrow> for_up (Suc i) n body s')
      else Inr s)"
  by pat_completeness auto
termination
  by (relation "measure (\<lambda>(i, n, body, s). n - i)") auto

declare for_up.simps [simp del]

text \<open>The decimal rendering of a number in a message.\<close>

function show_nat :: "nat \<Rightarrow> string" where
  "show_nat n =
     (if n < 10 then [''0123456789'' ! n]
      else show_nat (n div 10) @ [''0123456789'' ! (n mod 10)])"
  by pat_completeness auto
termination
  by (relation "measure id") auto

declare show_nat.simps [simp del]

section \<open>The Matrix object\<close>

text \<open>
  \<open>rows\<close> and \<open>cols\<close> are fixed at construction (\<open>writable: false\<close>); \<open>val\<close> is the
  property \<open>value\<close> of the source, an array of rows. \<open>dimensions\<close> is the pair
  \<open>[rows, cols]\<close>.
\<close>

record matrix =
  rows :: nat
  cols :: nat
  val :: grid

text \<open>
  Objects live in a store; a reference is an index into it. \<open>new\<close> appends, so an
  older object is never moved.
\<close>

type_synonym heap = "matrix list"
type_synonym ref = nat

definition alloc :: "heap \<Rightarrow> matrix \<Rightarrow> ref \<times> heap" where
  "alloc h M = (length h, h @ [M])"

text \<open>
  What a caller can pass where the library expects a matrix, a scalar or a constructor
  argument: a number, a Matrix object, a nested array of values, a pair
  \<open>[rows, cols]\<close>, or nothing.
\<close>

datatype jsarg = ANum number | ARef ref | AGrid grid | APair nat nat | AUndefined

subsection \<open>\<open>get\<close>, \<open>set\<close>, \<open>zero\<close>, \<open>reset\<close>\<close>

text \<open>
  \<open>get: function(x, y) { return this.value[x][y]; }\<close>. An index that is negative
  names no element of an array.
\<close>

definition get :: "matrix \<Rightarrow> int \<Rightarrow> int \<Rightarrow> error + jsval" where
  "get M x y =
     (if 0 \<le> x \<and> nat x < length (val M)
      then Inr (if 0 \<le> y then js_get (val M ! nat x) (nat y) else Undefined)
      else Inl TypeError)"

text \<open>\<open>set(x, y)(v)\<close>: \<open>this.value[x][y] = v\<close>.\<close>

definition set_cell :: "nat \<Rightarrow> nat \<Rightarrow> jsval \<Rightarrow> matrix \<Rightarrow> error + matrix" where
  "set_cell x y v M = andThen (grid_write (val M) x y v) (\<lambda>g. Inr (M\<lparr>val := g\<rparr>))"

text \<open>
  \<open>zero(value)\<close>: \<open>value || (value = 0)\<close>, then every row below \<open>rows\<close> is replaced
  by a fresh array, filled from its last column down.
\<close>

definition zero :: "jsval \<Rightarrow> matrix \<Rightarrow> error + matrix" where
  "zero v M =
     andThen
       (for_down (rows M)
          (\<lambda>row g.
             andThen (for_down (cols M) (\<lambda>col r. Inr (js_put r col (js_or v (Num (Fin 0 0))))) [])
               (\<lambda>r. Inr (arr_put [] g row r)))
          (val M))
       (\<lambda>g. Inr (M\<lparr>val := g\<rparr>))"

text \<open>
  \<open>reset\<close>: \<open>this.zero(); for(var i = this.dimensions[0]; i--; ) this.set(i, i)(1);\<close>
\<close>

definition reset :: "matrix \<Rightarrow> error + matrix" where
  "reset M =
     andThen (zero Undefined M)
       (for_down (rows M) (\<lambda>i. set_cell i i (Num (Fin 1 0))))"

subsection \<open>The constructor\<close>

text \<open>
  \<open>new Matrix(dimensions)\<close>. No argument means \<open>[2, 2]\<close>. A nested array whose first
  element is an array is a grid of values: \<open>rows\<close> is its length, \<open>cols\<close> the length
  of its first row, and every cell is \<open>dimensions[row][col] || 0\<close>. A pair gives the
  extents and the object is \<open>reset\<close>. Any other argument (a number, a Matrix, the empty
  array) is read as a pair and yields the extents \<open>undefined\<close>; every loop over such an
  extent runs no iteration, as over the extent 0 that stands for it here.
\<close>

definition from_grid :: "grid \<Rightarrow> error + matrix" where
  "from_grid d =
     andThen
       (for_down (length d)
          (\<lambda>row g.
             andThen
               (for_down (length (hd d))
                  (\<lambda>col r. Inr (js_put r col (js_or (js_get (d ! row) col) (Num (Fin 0 0))))) [])
               (\<lambda>r. Inr (arr_put [] g row r)))
          [])
       (\<lambda>g. Inr \<lparr>rows = length d, cols = length (hd d), val = g\<rparr>)"

fun Matrix_new :: "jsarg \<Rightarrow> error + matrix" where
  "Matrix_new AUndefined = reset \<lparr>rows = 2, cols = 2, val = []\<rparr>"
| "Matrix_new (APair r c) = reset \<lparr>rows = r, cols = c, val = []\<rparr>"
| "Matrix_new (AGrid d) =
     (if d \<noteq> [] then from_grid d else reset \<lparr>rows = 0, cols = 0, val = []\<rparr>)"
| "Matrix_new (ANum n) = reset \<lparr>rows = 0, cols = 0, val = []\<rparr>"
| "Matrix_new (ARef m) = reset \<lparr>rows = 0, cols = 0, val = []\<rparr>"

definition Matrix_ctor :: "heap \<Rightarrow> jsarg \<Rightarrow> error + (ref \<times> heap)" where
  "Matrix_ctor h a = andThen (Matrix_new a) (\<lambda>M. Inr (alloc h M))"

section \<open>Operations on objects in the store\<close>

text \<open>A method that touches only the fields of one object.\<close>

definition on_obj :: "ref \<Rightarrow> (matrix \<Rightarrow> error + matrix) \<Rightarrow> heap \<Rightarrow> error + heap" where
  "on_obj a f h = andThen (f (h ! a)) (\<lambda>M. Inr (h[a := M]))"

text \<open>The store after a write into \<open>value\<close> of the object \<open>a\<close> has left the grid \<open>g\<close> there.\<close>

definition store_val :: "ref \<Rightarrow> grid \<Rightarrow> heap \<Rightarrow> heap" where
  "store_val a g h = h[a := (h ! a)\<lparr>val := g\<rparr>]"

subsection \<open>\<open>copy\<close>\<close>

text \<open>
  \<open>copy(M)\<close>: \<open>if(!(M instanceof Matrix)) M = new Matrix(M);\<close> then, for every
  row and column of \<open>M\<close>, counting down,
  \<open>this.value[row][col] = M.value[row][col]\<close>. There is no check of the shapes.
  A missing row on either side throws the same \<open>TypeError\<close>.
\<close>

definition copy_cell :: "ref \<Rightarrow> ref \<Rightarrow> nat \<Rightarrow> nat \<Rightarrow> heap \<Rightarrow> error + heap" where
  "copy_cell this m row col h =
     andThen (grid_read (val (h ! m)) row col) (\<lambda>v.
     andThen (grid_write (val (h ! this)) row col v) (\<lambda>g.
     Inr (store_val this g h)))"

definition copy_from :: "ref \<Rightarrow> ref \<Rightarrow> heap \<Rightarrow> error + heap" where
  "copy_from this m h =
     for_down (rows (h ! m)) (\<lambda>row.
       for_down (cols (h ! m)) (\<lambda>col. copy_cell this m row col)) h"

definition copy :: "ref \<Rightarrow> jsarg \<Rightarrow> heap \<Rightarrow> error + heap" where
  "copy this M h =
     (case M of
        ARef m \<Rightarrow> copy_from this m h
      | _ \<Rightarrow> andThen (Matrix_ctor h M) (\<lambda>(m, h1). copy_from this m h1))"

subsection \<open>The transpose \<open>T\<close> and the identity \<open>I\<close>\<close>

text \<open>
  \<open>_.zip\<close> of the underscore library, applied to the rows: the result has as many
  arrays as the longest row has elements, and the \<open>i\<close>-th holds the \<open>i\<close>-th element
  of every row (\<open>undefined\<close> where a row is shorter).
\<close>

definition js_zip :: "grid \<Rightarrow> grid" where
  "js_zip g = map (\<lambda>i. map (\<lambda>r. js_get r i) g) [0..<foldr (\<lambda>r n. max (length r) n) g 0]"

text \<open>
  \<open>T\<close>: \<open>var result = new Matrix([this.cols, this.rows]);
  result.value = _.zip.apply(_, this.value); return result;\<close>
\<close>

definition Matrix_T :: "ref \<Rightarrow> heap \<Rightarrow> error + (ref \<times> heap)" where
  "Matrix_T this h =
     andThen (Matrix_ctor h (APair (cols (h ! this)) (rows (h ! this)))) (\<lambda>(r, h1).
     Inr (r, store_val r (js_zip (val (h1 ! this))) h1))"

text \<open>
  \<open>I\<close>: \<open>return new Matrix(this.dimensions).value;\<close> The result is the array of
  rows, not a Matrix.
\<close>

definition Matrix_I :: "ref \<Rightarrow> heap \<Rightarrow> error + (jsarg \<times> heap)" where
  "Matrix_I this h =
     andThen (Matrix_ctor h (APair (rows (h ! this)) (cols (h ! this)))) (\<lambda>(r, h1).
     Inr (AGrid (val (h1 ! r)), h1))"

subsection \<open>The free function \<open>Matrix.dot\<close>\<close>

definition dot_message :: "nat \<Rightarrow> nat \<Rightarrow> string" where
  "dot_message c r =
     ''Cannot compute the dot product of matrices of incompatible dimensions. ''
       @ show_nat c @ '' !== '' @ show_nat r"

text \<open>
  One cell: \<open>sum = 0; for(j = A.cols; j--; ) sum += A.value[row][j] * B.value[j][col];
  result.value[row][col] = sum;\<close>
\<close>

definition dot_cell :: "ref \<Rightarrow> ref \<Rightarrow> ref \<Rightarrow> nat \<Rightarrow> nat \<Rightarrow> heap \<Rightarrow> error + heap" where
  "dot_cell a b r row col h =
     andThen
       (for_down (cols (h ! a)) (\<lambda>j s.
          andThen (grid_read (val (h ! a)) row j) (\<lambda>x.
          andThen (grid_read (val (h ! b)) j col) (\<lambda>y.
          Inr (js_add s (js_mul x y))))) (Num (Fin 0 0))) (\<lambda>s.
     andThen (grid_write (val (h ! r)) row col s) (\<lambda>g.
     Inr (store_val r g h)))"

text \<open>
  One step of the chain, from the check of the inner extents on: the result is a new
  object, zeroed, then filled row by row and column by column, counting up.
\<close>

definition dot_pair :: "ref \<Rightarrow> ref \<Rightarrow> heap \<Rightarrow> error + (ref \<times> heap)" where
  "dot_pair a b h =
     (if cols (h ! a) \<noteq> rows (h ! b)
      then Inl (Throw (dot_message (cols (h ! a)) (rows (h ! b))))
      else
        andThen (Matrix_ctor h (APair (rows (h ! a)) (cols (h ! b)))) (\<lambda>(r, h1).
        andThen (on_obj r (zero Undefined) h1) (\<lambda>h2.
        andThen (for_up 0 (rows (h2 ! a)) (\<lambda>row.
                   for_up 0 (cols (h2 ! b)) (\<lambda>col. dot_cell a b r row col)) h2) (\<lambda>h3.
        Inr (r, h3)))))"

text \<open>
  The body of the loop over the operands: the left operand is \<open>args[i]\<close> while there is
  no result yet, and afterwards a new Matrix of the result's dimensions that the result
  is copied into.
\<close>

definition dot_step :: "ref list \<Rightarrow> nat \<Rightarrow> ref option \<times> heap \<Rightarrow> error + (ref option \<times> heap)" where
  "dot_step args i s =
     (case s of (result, h) \<Rightarrow>
        andThen
          (case result of
             None \<Rightarrow> Inr (args ! i, h)
           | Some res \<Rightarrow>
               andThen (Matrix_ctor h (APair (rows (h ! res)) (cols (h ! res)))) (\<lambda>(a, h1).
               andThen (copy a (ARef res) h1) (\<lambda>h2. Inr (a, h2)))) (\<lambda>(a, h1).
        andThen (dot_pair a (args ! (i + 1)) h1) (\<lambda>(r, h2).
        Inr (Some r, h2))))"

text \<open>
  \<open>Matrix.dot(...)\<close> on Matrix operands: \<open>for(i = 0, len = args.length-1; i < len; i++)\<close>.
  The result is \<open>undefined\<close> when there are fewer than two operands.
\<close>

definition Matrix_dot :: "ref list \<Rightarrow> heap \<Rightarrow> error + (ref option \<times> heap)" where
  "Matrix_dot args h = for_up 0 (length args - 1) (dot_step args) (None, h)"

subsection \<open>The operand checks of the prototype functions\<close>

text \<open>
  \<open>_.isEqual(this.dimensions, args[i].dimensions)\<close>: reading \<open>dimensions\<close> of
  \<open>undefined\<close> throws; an array or a number has no such property, and the comparison
  is false.
\<close>

definition same_dimensions :: "ref \<Rightarrow> jsarg \<Rightarrow> heap \<Rightarrow> error + bool" where
  "same_dimensions this arg h =
     (case arg of
        ARef m \<Rightarrow> Inr (rows (h ! this) = rows (h ! m) \<and> cols (h ! this) = cols (h ! m))
      | AUndefined \<Rightarrow> Inl TypeError
      | _ \<Rightarrow> Inr False)"

text \<open>
  The operand of \<open>add\<close>: a number becomes a new Matrix of the receiver's dimensions
  filled by \<open>zero(val)\<close>; anything else must have the receiver's dimensions.
\<close>

definition add_operand :: "ref \<Rightarrow> jsarg \<Rightarrow> heap \<Rightarrow> error + (ref \<times> heap)" where
  "add_operand this arg h =
     (case arg of
        ANum n \<Rightarrow>
          andThen (Matrix_ctor h (APair (rows (h ! this)) (cols (h ! this)))) (\<lambda>(m, h1).
          andThen (on_obj m (zero (Num n)) h1) (\<lambda>h2. Inr (m, h2)))
      | _ \<Rightarrow>
          andThen (same_dimensions this arg h) (\<lambda>eq.
          if \<not> eq then Inl (Throw ''Cannot add matrices of different dimensions.'')
          else (case arg of ARef m \<Rightarrow> Inr (m, h) | _ \<Rightarrow> Inl TypeError)))"

subsection \<open>\<open>add\<close>\<close>

text \<open>\<open>this.value[row][col] += args[i].value[row][col]\<close>\<close>

definition add_cell :: "ref \<Rightarrow> ref \<Rightarrow> nat \<Rightarrow> nat \<Rightarrow> heap \<Rightarrow> error + heap" where
  "add_cell this m row col h =
     andThen (grid_read (val (h ! this)) row col) (\<lambda>x.
     andThen (grid_read (val (h ! m)) row col) (\<lambda>y.
     andThen (grid_write (val (h ! this)) row col (js_add x y)) (\<lambda>g.
     Inr (store_val this g h))))"

definition add_arg :: "ref \<Rightarrow> jsarg \<Rightarrow> heap \<Rightarrow> error + heap" where
  "add_arg this arg h =
     andThen (add_operand this arg h) (\<lambda>(m, h1).
     for_up 0 (rows (h1 ! this)) (\<lambda>row.
       for_up 0 (cols (h1 ! this)) (\<lambda>col. add_cell this m row col)) h1)"

text \<open>The prototype function: the receiver is changed and returned.\<close>

definition proto_add :: "ref \<Rightarrow> jsarg list \<Rightarrow> heap \<Rightarrow> error + (ref \<times> heap)" where
  "proto_add this args h =
     andThen (for_up 0 (length args) (\<lambda>i. add_arg this (args ! i)) h) (\<lambda>h1.
     Inr (this, h1))"

text \<open>
  \<open>Matrix.add(...)\<close>: the first Matrix among the operands gives the dimensions of a
  new Matrix, which is zeroed and then adds every operand to itself.
\<close>

fun is_matrix :: "jsarg \<Rightarrow> bool" where
  "is_matrix (ARef m) = True"
| "is_matrix _ = False"

definition Matrix_add :: "jsarg list \<Rightarrow> heap \<Rightarrow> error + (ref \<times> heap)" where
  "Matrix_add args h =
     (case find is_matrix args of
        Some (ARef first) \<Rightarrow>
          andThen (Matrix_ctor h (APair (rows (h ! first)) (cols (h ! first)))) (\<lambda>(r, h1).
          andThen (on_obj r (zero Undefined) h1) (\<lambda>h2.
          proto_add r args h2))
      | _ \<Rightarrow> Inl TypeError)"

subsection \<open>The prototype \<open>dot\<close>\<close>

definition proto_dot_message :: string where
  "proto_dot_message =
     ''Must supply matrices of equal dimensions. To multiply rectangular matrices, use the Matrix.dot() function.''"

text \<open>
  The check of one operand:
  \<open>if((this.rows !== this.cols) || !_.isEqual(this.dimensions, args[i].dimensions)) throw ...\<close>
\<close>

definition dot_check :: "ref \<Rightarrow> jsarg \<Rightarrow> heap \<Rightarrow> error + heap" where
  "dot_check this arg h =
     (if rows (h ! this) \<noteq> cols (h ! this) then Inl (Throw proto_dot_message)
      else
        andThen (same_dimensions this arg h) (\<lambda>eq.
        if \<not> eq then Inl (Throw proto_dot_message) else Inr h))"

text \<open>The operands that are Matrix objects (after the check: all of them).\<close>

fun refs_of :: "jsarg list \<Rightarrow> ref list" where
  "refs_of [] = []"
| "refs_of (ARef m # as) = m # refs_of as"
| "refs_of (_ # as) = refs_of as"

text \<open>
  \<open>args.unshift(this); result = Matrix.dot.apply(this, args); this.copy(result);
  return this;\<close>
\<close>

definition proto_dot :: "ref \<Rightarrow> jsarg list \<Rightarrow> heap \<Rightarrow> error + (ref \<times> heap)" where
  "proto_dot this args h =
     andThen (for_up 0 (length args) (\<lambda>i. dot_check this (args ! i)) h) (\<lambda>h1.
     andThen (Matrix_dot (this # refs_of args) h1) (\<lambda>(result, h2).
     andThen (copy this (case result of None \<Rightarrow> AUndefined | Some r \<Rightarrow> ARef r) h2) (\<lambda>h3.
     Inr (this, h3))))"

subsection \<open>\<open>product\<close>\<close>

text \<open>\<open>this.value[row][col] *= args[i]\<close>\<close>

definition scale_cell :: "ref \<Rightarrow> number \<Rightarrow> nat \<Rightarrow> nat \<Rightarrow> heap \<Rightarrow> error + heap" where
  "scale_cell this n row col h =
     andThen (grid_read (val (h ! this)) row col) (\<lambda>x.
     andThen (grid_write (val (h ! this)) row col (js_mul x (Num n))) (\<lambda>g.
     Inr (store_val this g h)))"

text \<open>
  One operand of \<open>product\<close>: a number scales every cell, a Matrix is multiplied in by
  \<open>this.dot\<close>, and there is no branch for anything else.
\<close>

definition product_arg :: "ref \<Rightarrow> jsarg \<Rightarrow> heap \<Rightarrow> error + heap" where
  "product_arg this arg h =
     (case arg of
        ANum n \<Rightarrow>
          for_down (rows (h ! this)) (\<lambda>row.
            for_down (cols (h ! this)) (\<lambda>col. scale_cell this n row col)) h
      | ARef m \<Rightarrow> andThen (proto_dot this [ARef m] h) (\<lambda>(r, h1). Inr h1)
      | _ \<Rightarrow> Inr h)"

definition proto_product :: "ref \<Rightarrow> jsarg list \<Rightarrow> heap \<Rightarrow> error + (ref \<times> heap)" where
  "proto_product this args h =
     andThen (for_up 0 (length args) (\<lambda>i. product_arg this (args ! i)) h) (\<lambda>h1.
     Inr (this, h1))"

text \<open>
  \<open>Matrix.product(...)\<close>: \<open>var result = new Matrix(args[0].dimensions);
  result.copy(args.shift()); result.product.apply(result, args); return result;\<close>
  Only a Matrix has the property \<open>dimensions\<close>.
\<close>

definition dimensions_of :: "jsarg \<Rightarrow> heap \<Rightarrow> error + jsarg" where
  "dimensions_of arg h =
     (case arg of
        ARef m \<Rightarrow> Inr (APair (rows (h ! m)) (cols (h ! m)))
      | AUndefined \<Rightarrow> Inl TypeError
      | _ \<Rightarrow> Inr AUndefined)"

definition Matrix_product :: "jsarg list \<Rightarrow> heap \<Rightarrow> error + (ref \<times> heap)" where
  "Matrix_product args h =
     (case args of
        [] \<Rightarrow> Inl TypeError
      | first # rest \<Rightarrow>
          andThen (dimensions_of first h) (\<lambda>d.
          andThen (Matrix_ctor h d) (\<lambda>(r, h1).
          andThen (copy r first h1) (\<lambda>h2.
          proto_product r rest h2))))"

subsection \<open>\<open>pow\<close>\<close>

text \<open>
  \<open>var A = new Matrix(this.dimensions); A.copy(this);
  if(exp === 0) this.reset(); else for(i = 1; i < exp; i++) this.dot(A);
  return this;\<close>
\<close>

definition pow :: "ref \<Rightarrow> int \<Rightarrow> heap \<Rightarrow> error + (ref \<times> heap)" where
  "pow this exp h =
     andThen (Matrix_ctor h (APair (rows (h ! this)) (cols (h ! this)))) (\<lambda>(a, h1).
     andThen (copy a (ARef this) h1) (\<lambda>h2.
     andThen
       (if exp = 0 then on_obj this reset h2
        else for_up 1 (nat exp) (\<lambda>i h3.
               andThen (proto_dot this [ARef a] h3) (\<lambda>(r, h4). Inr h4)) h2) (\<lambda>h5.
     Inr (this, h5))))"

section \<open>Reference notions\<close>

text \<open>A count-up loop over the operands is a left-to-right pass over the list.\<close>

fun each :: "('a \<Rightarrow> 's \<Rightarrow> error + 's) \<Rightarrow> 'a list \<Rightarrow> 's \<Rightarrow> error + 's" where
  "each f [] s = Inr s"
| "each f (x # xs) s = andThen (f x s) (each f xs)"


text \<open>The row \<open>i\<close> that \<open>reset\<close> leaves: zeros in \<open>c\<close> columns, then a 1 written at column \<open>i\<close>.\<close>

definition diag_row :: "nat \<Rightarrow> nat \<Rightarrow> jsval list" where
  "diag_row c i = js_put (replicate c (Num (Fin 0 0))) i (Num (Fin 1 0))"

text \<open>The identity pattern of the specification: 1 on the diagonal, 0 elsewhere.\<close>

definition identity_pattern :: "nat \<Rightarrow> nat \<Rightarrow> grid" where
  "identity_pattern r c =
     map (\<lambda>i. map (\<lambda>j. if i = j then Num (Fin 1 0) else Num (Fin 0 0)) [0..<c]) [0..<r]"

text \<open>A matrix of the data model: exactly \<open>rows\<close> rows of exactly \<open>cols\<close> entries.\<close>

definition shaped :: "matrix \<Rightarrow> bool" where
  "shaped M \<longleftrightarrow> length (val M) = rows M \<and> (\<forall>r \<in> set (val M). length r = cols M)"

text \<open>\<open>M.value[i][j]\<close> when the row \<open>i\<close> is there.\<close>

definition cell :: "matrix \<Rightarrow> nat \<Rightarrow> nat \<Rightarrow> jsval" where
  "cell M i j = js_get (val M ! i) j"

text \<open>
  The sum over \<open>k\<close> of \<open>A[row][k] * B[k][col]\<close>, accumulated in the arithmetic of the
  numbers from 0, the index \<open>k\<close> running from \<open>cols A - 1\<close> down to 0.
\<close>

definition dot_sum :: "matrix \<Rightarrow> matrix \<Rightarrow> nat \<Rightarrow> nat \<Rightarrow> jsval" where
  "dot_sum A B row col =
     foldl (\<lambda>s k. js_add s (js_mul (cell A row k) (cell B k col))) (Num (Fin 0 0))
       (rev [0..<cols A])"

text \<open>
  The sum that the innermost loop of \<open>Matrix.dot\<close> accumulates, from index \<open>m - 1\<close>
  down to 0, when no read fails.
\<close>

primrec dot_acc :: "grid \<Rightarrow> grid \<Rightarrow> nat \<Rightarrow> nat \<Rightarrow> nat \<Rightarrow> jsval \<Rightarrow> jsval" where
  "dot_acc ga gb row col 0 s = s"
| "dot_acc ga gb row col (Suc j) s =
     dot_acc ga gb row col j (js_add s (js_mul (js_get (ga ! row) j) (js_get (gb ! j) col)))"

text \<open>The grid of the product of two matrices, cell by cell.\<close>

definition dot_grid :: "matrix \<Rightarrow> matrix \<Rightarrow> grid" where
  "dot_grid A B =
     map (\<lambda>row. map (\<lambda>col. dot_acc (val A) (val B) row col (cols A) (Num (Fin 0 0))) [0..<cols B])
       [0..<rows A]"

text \<open>
  The grid that the constructor builds from a nested array \<open>d\<close>: as many rows as
  \<open>d\<close> has, each of as many cells as the first row of \<open>d\<close> has, every cell
  \<open>d[row][col] || 0\<close>. \<open>kept\<close> are the values that \<open>|| 0\<close> leaves as they are.
\<close>

definition coerced :: "grid \<Rightarrow> grid" where
  "coerced d =
     map (\<lambda>row. map (\<lambda>col. js_or (js_get (d ! row) col) (Num (Fin 0 0))) [0..<length (hd d)])
       [0..<length d]"

definition kept :: "jsval \<Rightarrow> bool" where
  "kept v \<longleftrightarrow> truthy v \<or> v = Num (Fin 0 0)"

text \<open>
  What \<open>copy\<close> leaves in a grid \<open>g\<close> after reading a source \<open>S\<close>: in every row of
  the source, the first \<open>cols S\<close> cells are the source's and the rest of the row is
  kept; the rows below the source's are kept.
\<close>

definition overlay :: "matrix \<Rightarrow> grid \<Rightarrow> grid" where
  "overlay S g =
     map (\<lambda>row. map (js_get (val S ! row)) [0..<cols S] @ drop (cols S) (g ! row)) [0..<rows S]
       @ drop (rows S) g"

text \<open>The transpose of the data model: cell \<open>[j][i]\<close> is cell \<open>[i][j]\<close> of the source.\<close>

definition transposed :: "matrix \<Rightarrow> matrix" where
  "transposed M =
     \<lparr>rows = cols M, cols = rows M,
      val = map (\<lambda>j. map (\<lambda>i. val M ! i ! j) [0..<rows M]) [0..<cols M]\<rparr>"

text \<open>
  The state of the loop of \<open>Matrix.dot\<close> before step \<open>k\<close>: no result yet, or a
  result in a store that extends the first one, with the rows of the first operand and
  the columns of operand \<open>k\<close>.
\<close>

definition chain_inv :: "heap \<Rightarrow> ref list \<Rightarrow> nat \<Rightarrow> ref option \<times> heap \<Rightarrow> bool" where
  "chain_inv h args k s =
     (case s of (res, h') \<Rightarrow>
        if k = 0 then res = None \<and> h' = h
        else (\<exists>r ext. res = Some r \<and> h' = h @ ext \<and> r < length h'
                \<and> rows (h' ! r) = rows (h ! (args ! 0))
                \<and> cols (h' ! r) = cols (h ! (args ! k))
                \<and> rows (h' ! r) \<le> length (val (h' ! r))))"

text \<open>One more product of a running value \<open>g\<close> of the receiver with the saved matrix \<open>M\<close>.\<close>

definition times_saved :: "matrix \<Rightarrow> grid \<Rightarrow> grid" where
  "times_saved M g = dot_grid (M\<lparr>val := g\<rparr>) M"

text \<open>
  The state of the loop of \<open>pow\<close> before iteration \<open>j\<close>, on the receiver \<open>this\<close>
  with first value \<open>M\<close> in the first store \<open>h\<close>: one object was made for the saved
  copy and one by every product so far, the receiver holds the result of \<open>j - 1\<close>
  products, the saved copy is \<open>M\<close>, and no other object of \<open>h\<close> has changed.
\<close>

definition pow_inv :: "heap \<Rightarrow> ref \<Rightarrow> nat \<Rightarrow> heap \<Rightarrow> bool" where
  "pow_inv h this j h' \<longleftrightarrow>
     length h' = length h + j
     \<and> h' ! this = (h ! this)\<lparr>val := (times_saved (h ! this) ^^ (j - 1)) (val (h ! this))\<rparr>
     \<and> h' ! length h = h ! this
     \<and> (\<forall>b<length h. b \<noteq> this \<longrightarrow> h' ! b = h ! b)"

text \<open>
  What the loops of \<open>add\<close> leave in the grid of a receiver \<open>D\<close> after reading the
  grid \<open>src\<close> of an operand: inside the extents of the receiver every cell is the sum
  of the two cells, and everything else is kept.
\<close>

definition sum_grid :: "matrix \<Rightarrow> grid \<Rightarrow> grid" where
  "sum_grid D src =
     map (\<lambda>row. map (\<lambda>k. js_add (js_get (val D ! row) k) (js_get (src ! row) k)) [0..<cols D]
                 @ drop (cols D) (val D ! row)) [0..<rows D]
       @ drop (rows D) (val D)"

text \<open>The matrix of the receiver's extents filled with one value.\<close>

definition uniform :: "nat \<Rightarrow> nat \<Rightarrow> jsval \<Rightarrow> matrix" where
  "uniform r c v = \<lparr>rows = r, cols = c, val = replicate r (replicate c v)\<rparr>"

text \<open>What \<open>zero(s)\<close> fills a matrix with: \<open>s || 0\<close>.\<close>

definition fill_of :: "number \<Rightarrow> jsval" where
  "fill_of s = js_or (Num s) (Num (Fin 0 0))"

text \<open>Every entry of a matrix, plus a value.\<close>

definition plus_scalar :: "matrix \<Rightarrow> jsval \<Rightarrow> matrix" where
  "plus_scalar M v = M\<lparr>val := map (map (\<lambda>x. js_add x v)) (val M)\<rparr>"

text \<open>The decimal numeral read back as a number.\<close>

definition read_nat :: "string \<Rightarrow> nat" where
  "read_nat s = foldl (\<lambda>a c. 10 * a + (of_char c - 48)) 0 s"

text \<open>An operand that is neither a number nor a Matrix.\<close>

fun skipped :: "jsarg \<Rightarrow> bool" where
  "skipped (ANum n) = False"
| "skipped (ARef m) = False"
| "skipped _ = True"

section \<open>Loops and arrays\<close>

lemma andThen_Inr [simp]: "andThen (Inr x) f = f x"
  by (simp add: andThen_def)

lemma andThen_Inl [simp]: "andThen (Inl e) f = Inl e"
  by (simp add: andThen_def)

lemma for_up_step: "i < n \<Longrightarrow> for_up i n body s = andThen (body i s) (for_up (Suc i) n body)"
  by (subst for_up.simps) (simp add: andThen_def)

lemma for_up_done [simp]: "\<not> i < n \<Longrightarrow> for_up i n body s = Inr s"
  by (subst for_up.simps) simp

lemma for_down_numeral [simp]:
  "for_down (numeral k) body s =
     andThen (body (pred_numeral k) s) (for_down (pred_numeral k) body)"
  by (simp add: numeral_eq_Suc andThen_def)

lemma for_down_Suc: "for_down (Suc i) body s = andThen (body i s) (for_down i body)"
  by (simp add: andThen_def)

lemma length_arr_put [simp]: "length (arr_put pad xs i v) = max (length xs) (Suc i)"
  by (auto simp: arr_put_def)



lemma drop_arr_put: "drop i (arr_put pad xs i v) = v # drop (Suc i) xs"
proof (cases "i < length xs")
  case True
  then show ?thesis
    by (simp add: arr_put_def drop_update_cancel Cons_nth_drop_Suc [symmetric] upd_conv_take_nth_drop)
next
  case False
  then show ?thesis by (simp add: arr_put_def)
qed

lemma for_down_put:
  "for_down n (\<lambda>i s. Inr (arr_put pad s i (f i))) xs = Inr (map f [0..<n] @ drop n xs)"
proof (induction n arbitrary: xs)
  case 0
  show ?case by simp
next
  case (Suc n)
  show ?case
    by (simp add: Suc.IH drop_arr_put)
qed

lemma for_down_js_put:
  "for_down n (\<lambda>i s. Inr (js_put s i (f i))) xs = Inr (map f [0..<n] @ drop n xs)"
  unfolding js_put_def by (rule for_down_put)

lemma for_down_diag:
  "n \<le> length g \<Longrightarrow>
   for_down n (\<lambda>i g. grid_write g i i v) g =
     Inr (map (\<lambda>i. js_put (g ! i) i v) [0..<n] @ drop n g)"
proof (induction n arbitrary: g)
  case 0
  show ?case by simp
next
  case (Suc n)
  have w: "grid_write g n n v = Inr (g[n := js_put (g ! n) n v])"
    using Suc.prems by (simp add: grid_write_def)
  have "for_down n (\<lambda>i g. grid_write g i i v) (g[n := js_put (g ! n) n v]) =
     Inr (map (\<lambda>i. js_put (g[n := js_put (g ! n) n v] ! i) i v) [0..<n] @ drop n (g[n := js_put (g ! n) n v]))"
    using Suc.prems by (intro Suc.IH) simp
  also have "map (\<lambda>i. js_put (g[n := js_put (g ! n) n v] ! i) i v) [0..<n] = map (\<lambda>i. js_put (g ! i) i v) [0..<n]"
    by simp
  also have "drop n (g[n := js_put (g ! n) n v]) = js_put (g ! n) n v # drop (Suc n) g"
    using Suc.prems by (simp add: upd_conv_take_nth_drop)
  finally show ?case
    by (simp add: w)
qed

subsection \<open>\<open>zero\<close>, \<open>reset\<close> and the constructor\<close>

lemma zero_eq:
  "zero v M = Inr (M\<lparr>val := replicate (rows M) (replicate (cols M) (js_or v (Num (Fin 0 0)))) @ drop (rows M) (val M)\<rparr>)"
  by (simp add: zero_def for_down_js_put for_down_put map_replicate_const)

lemma for_down_set_cell:
  "for_down n (\<lambda>i. set_cell i i v) M =
     andThen (for_down n (\<lambda>i g. grid_write g i i v) (val M)) (\<lambda>g. Inr (M\<lparr>val := g\<rparr>))"
proof (induction n arbitrary: M)
  case 0
  show ?case by simp
next
  case (Suc n)
  have step: "set_cell n n v M = andThen (grid_write (val M) n n v) (\<lambda>g. Inr (M\<lparr>val := g\<rparr>))"
    by (simp add: set_cell_def)
  show ?case
    by (cases "grid_write (val M) n n v") (simp_all add: step Suc.IH)
qed

lemma reset_eq:
  "reset M = Inr (M\<lparr>val := map (diag_row (cols M)) [0..<rows M] @ drop (rows M) (val M)\<rparr>)"
proof -
  let ?g = "replicate (rows M) (replicate (cols M) (Num (Fin 0 0))) @ drop (rows M) (val M)"
  have len: "rows M \<le> length ?g" by simp
  have m: "map (\<lambda>i. js_put (?g ! i) i (Num (Fin 1 0))) [0..<rows M] = map (diag_row (cols M)) [0..<rows M]"
    by (simp add: nth_append diag_row_def)
  show ?thesis
    by (simp add: reset_def zero_eq js_or_def for_down_set_cell for_down_diag [OF len] m)
qed

lemma Matrix_new_pair:
  "Matrix_new (APair r c) = Inr \<lparr>rows = r, cols = c, val = map (diag_row c) [0..<r]\<rparr>"
  by (simp add: reset_eq)

lemma diag_row_in: "i < c \<Longrightarrow> diag_row c i = map (\<lambda>j. if i = j then Num (Fin 1 0) else Num (Fin 0 0)) [0..<c]"
  by (auto simp: diag_row_def js_put_def arr_put_def intro!: nth_equalityI)

lemma diag_row_out:
  "c \<le> i \<Longrightarrow> diag_row c i = replicate c (Num (Fin 0 0)) @ replicate (i - c) Undefined @ [Num (Fin 1 0)]"
  by (simp add: diag_row_def js_put_def arr_put_def)

lemma diag_rows_identity: "r \<le> c \<Longrightarrow> map (diag_row c) [0..<r] = identity_pattern r c"
  by (simp add: identity_pattern_def diag_row_in)

lemma reset_wide:
  "rows M \<le> cols M \<Longrightarrow> length (val M) = rows M \<Longrightarrow>
   reset M = Inr (M\<lparr>val := identity_pattern (rows M) (cols M)\<rparr>)"
  by (simp add: reset_eq diag_rows_identity)

lemma Matrix_new_wide:
  "r \<le> c \<Longrightarrow> Matrix_new (APair r c) = Inr \<lparr>rows = r, cols = c, val = identity_pattern r c\<rparr>"
  by (simp add: reset_eq diag_rows_identity)

lemma reset_tall_row:
  assumes "cols M \<le> i" "i < rows M"
  shows "\<exists>M'. reset M = Inr M' \<and> length (val M' ! i) = Suc i \<and> val M' ! i ! i = Num (Fin 1 0)"
  using assms by (simp add: reset_eq nth_append diag_row_out)




subsection \<open>Loops over a part of the state\<close>

text \<open>
  A loop on a state \<open>emb t\<close> whose body changes only the part \<open>t\<close> is the loop on
  that part: from the store to the grid of the receiver, and from a grid to one row.
\<close>

lemma for_down_sim:
  assumes "P s"
    and step: "\<And>k t. k < n \<Longrightarrow> P t \<Longrightarrow>
           body k (emb t) = andThen (gbody k t) (\<lambda>t'. Inr (emb t'))"
    and pres: "\<And>k t t'. k < n \<Longrightarrow> P t \<Longrightarrow> gbody k t = Inr t' \<Longrightarrow> P t'"
  shows "for_down n body (emb s) = andThen (for_down n gbody s) (\<lambda>t. Inr (emb t))"
  using assms
proof (induction n arbitrary: s)
  case 0
  show ?case by simp
next
  case (Suc n)
  have b: "body n (emb s) = andThen (gbody n s) (\<lambda>t'. Inr (emb t'))"
    using Suc.prems(2) [of n s] Suc.prems(1) by simp
  show ?case
  proof (cases "gbody n s")
    case (Inl e)
    then show ?thesis by (simp add: b)
  next
    case (Inr t)
    have pt: "P t" using Suc.prems(3) [of n s t] Suc.prems(1) Inr by simp
    have "for_down n body (emb t) = andThen (for_down n gbody t) (\<lambda>t. Inr (emb t))"
    proof (rule Suc.IH [OF pt])
      show "\<And>k t. k < n \<Longrightarrow> P t \<Longrightarrow> body k (emb t) = andThen (gbody k t) (\<lambda>t'. Inr (emb t'))"
        using Suc.prems(2) by simp
      show "\<And>k t t'. k < n \<Longrightarrow> P t \<Longrightarrow> gbody k t = Inr t' \<Longrightarrow> P t'"
        using Suc.prems(3) less_Suc_eq by blast
    qed
    then show ?thesis by (simp add: b Inr)
  qed
qed

lemma for_up_sim:
  assumes "P s"
    and step: "\<And>k t. i \<le> k \<Longrightarrow> k < n \<Longrightarrow> P t \<Longrightarrow>
           body k (emb t) = andThen (gbody k t) (\<lambda>t'. Inr (emb t'))"
    and pres: "\<And>k t t'. i \<le> k \<Longrightarrow> k < n \<Longrightarrow> P t \<Longrightarrow> gbody k t = Inr t' \<Longrightarrow> P t'"
  shows "for_up i n body (emb s) = andThen (for_up i n gbody s) (\<lambda>t. Inr (emb t))"
  using assms
proof (induction "n - i" arbitrary: i s)
  case 0
  then show ?case by simp
next
  case (Suc d)
  then have lt: "i < n" by simp
  have b: "body i (emb s) = andThen (gbody i s) (\<lambda>t'. Inr (emb t'))"
    using Suc.prems(2) [of i s] Suc.prems(1) lt by simp
  show ?case
  proof (cases "gbody i s")
    case (Inl e)
    then show ?thesis by (simp add: for_up_step [OF lt] b)
  next
    case (Inr t)
    have pt: "P t" using Suc.prems(3) [of i s t] Suc.prems(1) Inr lt by simp
    have "for_up (Suc i) n body (emb t) = andThen (for_up (Suc i) n gbody t) (\<lambda>t. Inr (emb t))"
    proof (rule Suc.hyps(1) [OF _ pt])
      show "d = n - Suc i" using Suc.hyps(2) by simp
      show "\<And>k t. Suc i \<le> k \<Longrightarrow> k < n \<Longrightarrow> P t \<Longrightarrow> body k (emb t) = andThen (gbody k t) (\<lambda>t'. Inr (emb t'))"
        using Suc.prems(2) by simp
      show "\<And>k t t'. Suc i \<le> k \<Longrightarrow> k < n \<Longrightarrow> P t \<Longrightarrow> gbody k t = Inr t' \<Longrightarrow> P t'"
        using Suc.prems(3) Suc_leD by blast
    qed
    then show ?thesis by (simp add: for_up_step [OF lt] b Inr)
  qed
qed

lemma for_up_split:
  "i \<le> k \<Longrightarrow> k \<le> n \<Longrightarrow> for_up i n body s = andThen (for_up i k body s) (for_up k n body)"
proof (induction "k - i" arbitrary: i s)
  case 0
  then show ?case by simp
next
  case (Suc d)
  then have lt: "i < k" "i < n" by simp_all
  show ?case
  proof (cases "body i s")
    case (Inl e)
    then show ?thesis by (simp add: for_up_step lt)
  next
    case (Inr t)
    have "for_up (Suc i) n body t = andThen (for_up (Suc i) k body t) (for_up k n body)"
      by (rule Suc.hyps(1)) (use Suc.hyps(2) Suc.prems in auto)
    then show ?thesis by (simp add: for_up_step lt Inr)
  qed
qed

lemma for_up_each_drop:
  "i \<le> length xs \<Longrightarrow> for_up i (length xs) (\<lambda>k. f (xs ! k)) s = each f (drop i xs) s"
proof (induction "length xs - i" arbitrary: i s)
  case 0
  then show ?case by simp
next
  case (Suc d)
  then have lt: "i < length xs" by simp
  have d: "drop i xs = xs ! i # drop (Suc i) xs"
    using lt by (simp add: Cons_nth_drop_Suc)
  show ?case
  proof (cases "f (xs ! i) s")
    case (Inl e)
    then show ?thesis by (simp add: for_up_step lt d)
  next
    case (Inr t)
    have "for_up (Suc i) (length xs) (\<lambda>k. f (xs ! k)) t = each f (drop (Suc i) xs) t"
      by (rule Suc.hyps(1)) (use Suc.hyps(2) lt in auto)
    then show ?thesis by (simp add: for_up_step lt d Inr)
  qed
qed

lemma for_up_each: "for_up 0 (length xs) (\<lambda>k. f (xs ! k)) s = each f xs s"
  using for_up_each_drop [of 0 xs f s] by simp

lemma for_up_js_upd:
  "i \<le> length r \<Longrightarrow> i \<le> c \<Longrightarrow>
   for_up i c (\<lambda>k r. Inr (js_put r k (F k (js_get r k)))) r =
     Inr (take i r @ map (\<lambda>k. F k (js_get r k)) [i..<c] @ drop c r)"
proof (induction "c - i" arbitrary: i r)
  case 0
  then show ?case by simp
next
  case (Suc d)
  then have lt: "i < c" by simp
  let ?r1 = "js_put r i (F i (js_get r i))"
  have len: "Suc i \<le> length ?r1" by (simp add: js_put_def)
  have tk: "take (Suc i) ?r1 = take i r @ [F i (js_get r i)]"
    using Suc.prems by (cases "i < length r") (simp_all add: js_put_def arr_put_def take_Suc_conv_app_nth)
  have gt: "\<And>k. i < k \<Longrightarrow> js_get ?r1 k = js_get r k"
    using Suc.prems by (auto simp: js_put_def arr_put_def js_get_def)
  have dr: "drop c ?r1 = drop c r"
    using Suc.prems lt by (auto simp: js_put_def arr_put_def)
  have "for_up (Suc i) c (\<lambda>k r. Inr (js_put r k (F k (js_get r k)))) ?r1 =
     Inr (take (Suc i) ?r1 @ map (\<lambda>k. F k (js_get ?r1 k)) [Suc i..<c] @ drop c ?r1)"
    by (rule Suc.hyps(1)) (use Suc.hyps(2) len in auto)
  also have "map (\<lambda>k. F k (js_get ?r1 k)) [Suc i..<c] = map (\<lambda>k. F k (js_get r k)) [Suc i..<c]"
    by (simp add: gt)
  finally show ?case
    using lt by (simp add: for_up_step tk dr upt_conv_Cons)
qed

lemma for_up_upd:
  "i \<le> n \<Longrightarrow> n \<le> length xs \<Longrightarrow>
   for_up i n (\<lambda>k s. Inr (s[k := F k (s ! k)])) xs =
     Inr (take i xs @ map (\<lambda>k. F k (xs ! k)) [i..<n] @ drop n xs)"
proof (induction "n - i" arbitrary: i xs)
  case 0
  then show ?case by simp
next
  case (Suc d)
  then have lt: "i < n" "i < length xs" by simp_all
  let ?x1 = "xs[i := F i (xs ! i)]"
  have tk: "take (Suc i) ?x1 = take i xs @ [F i (xs ! i)]"
    using lt by (simp add: take_Suc_conv_app_nth)
  have "for_up (Suc i) n (\<lambda>k s. Inr (s[k := F k (s ! k)])) ?x1 =
     Inr (take (Suc i) ?x1 @ map (\<lambda>k. F k (?x1 ! k)) [Suc i..<n] @ drop n ?x1)"
    by (rule Suc.hyps(1)) (use Suc.hyps(2) Suc.prems lt in auto)
  also have "map (\<lambda>k. F k (?x1 ! k)) [Suc i..<n] = map (\<lambda>k. F k (xs ! k)) [Suc i..<n]"
    by simp
  finally show ?case
    using lt by (simp add: for_up_step tk upt_conv_Cons)
qed

lemma for_down_upd:
  "n \<le> length xs \<Longrightarrow>
   for_down n (\<lambda>k s. Inr (s[k := F k (s ! k)])) xs =
     Inr (map (\<lambda>k. F k (xs ! k)) [0..<n] @ drop n xs)"
proof (induction n arbitrary: xs)
  case 0
  show ?case by simp
next
  case (Suc n)
  let ?x1 = "xs[n := F n (xs ! n)]"
  have "for_down n (\<lambda>k s. Inr (s[k := F k (s ! k)])) ?x1 =
     Inr (map (\<lambda>k. F k (?x1 ! k)) [0..<n] @ drop n ?x1)"
    by (rule Suc.IH) (use Suc.prems in simp)
  also have "map (\<lambda>k. F k (?x1 ! k)) [0..<n] = map (\<lambda>k. F k (xs ! k)) [0..<n]"
    by simp
  also have "drop n ?x1 = F n (xs ! n) # drop (Suc n) xs"
    using Suc.prems by (simp add: upd_conv_take_nth_drop)
  finally show ?case by simp
qed



subsection \<open>The store\<close>

lemma length_store_val [simp]: "length (store_val a g h) = length h"
  by (simp add: store_val_def)

lemma nth_store_val_same [simp]: "a < length h \<Longrightarrow> store_val a g h ! a = (h ! a)\<lparr>val := g\<rparr>"
  by (simp add: store_val_def)

lemma nth_store_val_other [simp]: "a \<noteq> b \<Longrightarrow> store_val a g h ! b = h ! b"
  by (simp add: store_val_def)

lemma store_val_twice [simp]: "store_val a g' (store_val a g h) = store_val a g' h"
  by (cases "a < length h") (simp_all add: store_val_def list_update_beyond)

lemma store_val_append_new [simp]: "store_val (length h) g (h @ [M]) = h @ [M\<lparr>val := g\<rparr>]"
  by (simp add: store_val_def)

lemma Matrix_ctor_pair:
  "Matrix_ctor h (APair r c) =
     Inr (length h, h @ [\<lparr>rows = r, cols = c, val = map (diag_row c) [0..<r]\<rparr>])"
  by (simp add: Matrix_ctor_def Matrix_new_pair alloc_def del: Matrix_new.simps)

lemma on_obj_new:
  "on_obj (length h) f (h @ [M]) = andThen (f M) (\<lambda>M'. Inr (h @ [M']))"
  by (simp add: on_obj_def)

lemma zero_fresh:
  "length (val M) = rows M \<Longrightarrow>
   zero v M = Inr (M\<lparr>val := replicate (rows M) (replicate (cols M) (js_or v (Num (Fin 0 0))))\<rparr>)"
  by (simp add: zero_eq)

subsection \<open>One step of \<open>Matrix.dot\<close>\<close>

lemma dot_sum_eq:
  assumes "row < length ga" "m \<le> length gb"
  shows "for_down m (\<lambda>j s.
            andThen (grid_read ga row j) (\<lambda>x.
            andThen (grid_read gb j col) (\<lambda>y.
            Inr (js_add s (js_mul x y))))) s = Inr (dot_acc ga gb row col m s)"
  using assms(2)
proof (induction m arbitrary: s)
  case 0
  show ?case by simp
next
  case (Suc m)
  then show ?case
    using assms(1) by (simp add: grid_read_def)
qed

lemma row_fill_up:
  assumes "row < length g"
  shows "for_up 0 p (\<lambda>col g. grid_write g row col (f col)) g =
           Inr (g[row := map f [0..<p] @ drop p (g ! row)])"
proof -
  have "for_up 0 p (\<lambda>col g. grid_write g row col (f col)) (g[row := g ! row]) =
      andThen (for_up 0 p (\<lambda>col r. Inr (js_put r col (f col))) (g ! row)) (\<lambda>r. Inr (g[row := r]))"
    by (rule for_up_sim [where P = "\<lambda>_. True"]) (use assms in \<open>simp_all add: grid_write_def\<close>)
  then show ?thesis
    using for_up_js_upd [of 0 "g ! row" p "\<lambda>k _. f k"] by simp
qed

lemma dot_cell_new:
  assumes "a < length h" "b < length h" "row < length (val (h ! a))"
    "cols (h ! a) \<le> length (val (h ! b))"
  shows "dot_cell a b (length h) row col (h @ [\<lparr>rows = rr, cols = cc, val = g\<rparr>]) =
     andThen (grid_write g row col (dot_acc (val (h ! a)) (val (h ! b)) row col (cols (h ! a)) (Num (Fin 0 0))))
       (\<lambda>g'. Inr (h @ [\<lparr>rows = rr, cols = cc, val = g'\<rparr>]))"
  using assms by (simp add: dot_cell_def nth_append dot_sum_eq)

lemma dot_cols_new:
  assumes "a < length h" "b < length h" "row < length (val (h ! a))"
    "cols (h ! a) \<le> length (val (h ! b))" "row < length g"
  shows "for_up 0 p (\<lambda>col. dot_cell a b (length h) row col) (h @ [\<lparr>rows = rr, cols = cc, val = g\<rparr>]) =
     Inr (h @ [\<lparr>rows = rr, cols = cc, val = g[row := map (\<lambda>col. dot_acc (val (h ! a)) (val (h ! b)) row col (cols (h ! a)) (Num (Fin 0 0))) [0..<p] @ drop p (g ! row)]\<rparr>])"
proof -
  let ?f = "\<lambda>col. dot_acc (val (h ! a)) (val (h ! b)) row col (cols (h ! a)) (Num (Fin 0 0))"
  have "for_up 0 p (\<lambda>col. dot_cell a b (length h) row col) (h @ [\<lparr>rows = rr, cols = cc, val = g\<rparr>]) =
      andThen (for_up 0 p (\<lambda>col g. grid_write g row col (?f col)) g) (\<lambda>g'. Inr (h @ [\<lparr>rows = rr, cols = cc, val = g'\<rparr>]))"
    by (rule for_up_sim [where P = "\<lambda>_. True"]) (use assms in \<open>simp_all add: dot_cell_new\<close>)
  then show ?thesis
    by (simp add: row_fill_up [OF assms(5)])
qed

lemma dot_rows_new:
  assumes "a < length h" "b < length h" "n \<le> length (val (h ! a))"
    "cols (h ! a) \<le> length (val (h ! b))" "n \<le> length g"
  shows "for_up 0 n (\<lambda>row. for_up 0 p (\<lambda>col. dot_cell a b (length h) row col)) (h @ [\<lparr>rows = rr, cols = cc, val = g\<rparr>]) =
     Inr (h @ [\<lparr>rows = rr, cols = cc, val = map (\<lambda>row. map (\<lambda>col. dot_acc (val (h ! a)) (val (h ! b)) row col (cols (h ! a)) (Num (Fin 0 0))) [0..<p] @ drop p (g ! row)) [0..<n] @ drop n g\<rparr>])"
proof -
  let ?F = "\<lambda>row r. map (\<lambda>col. dot_acc (val (h ! a)) (val (h ! b)) row col (cols (h ! a)) (Num (Fin 0 0))) [0..<p] @ drop p r"
  have "for_up 0 n (\<lambda>row. for_up 0 p (\<lambda>col. dot_cell a b (length h) row col)) (h @ [\<lparr>rows = rr, cols = cc, val = g\<rparr>]) =
      andThen (for_up 0 n (\<lambda>row g. Inr (g[row := ?F row (g ! row)])) g) (\<lambda>g'. Inr (h @ [\<lparr>rows = rr, cols = cc, val = g'\<rparr>]))"
  proof (rule for_up_sim [where P = "\<lambda>g. n \<le> length g"])
    show "n \<le> length g" by (rule assms(5))
  next
    fix k and t :: grid
    assume "k < n" "n \<le> length t"
    then show "for_up 0 p (\<lambda>col. dot_cell a b (length h) k col) (h @ [\<lparr>rows = rr, cols = cc, val = t\<rparr>]) =
        andThen (Inr (t[k := ?F k (t ! k)])) (\<lambda>t'. Inr (h @ [\<lparr>rows = rr, cols = cc, val = t'\<rparr>]))"
      using assms by (simp add: dot_cols_new)
  next
    fix k and t t' :: grid
    assume "n \<le> length t" "Inr (t[k := ?F k (t ! k)]) = (Inr t' :: error + grid)"
    then show "n \<le> length t'" by auto
  qed
  then show ?thesis
    using for_up_upd [of 0 n g ?F] assms(5) by simp
qed

lemma dot_pair_eq:
  assumes "a < length h" "b < length h" "cols (h ! a) = rows (h ! b)"
    "rows (h ! a) \<le> length (val (h ! a))" "rows (h ! b) \<le> length (val (h ! b))"
  shows "dot_pair a b h =
     Inr (length h, h @ [\<lparr>rows = rows (h ! a), cols = cols (h ! b), val = dot_grid (h ! a) (h ! b)\<rparr>])"
proof -
  let ?Z = "\<lparr>rows = rows (h ! a), cols = cols (h ! b), val = map (diag_row (cols (h ! b))) [0..<rows (h ! a)]\<rparr>"
  let ?g = "replicate (rows (h ! a)) (replicate (cols (h ! b)) (Num (Fin 0 0)))"
  have z: "zero Undefined ?Z = Inr \<lparr>rows = rows (h ! a), cols = cols (h ! b), val = ?g\<rparr>"
    by (simp add: zero_eq js_or_def)
  have loop: "for_up 0 (rows (h ! a)) (\<lambda>row. for_up 0 (cols (h ! b)) (\<lambda>col. dot_cell a b (length h) row col))
       (h @ [\<lparr>rows = rows (h ! a), cols = cols (h ! b), val = ?g\<rparr>]) =
     Inr (h @ [\<lparr>rows = rows (h ! a), cols = cols (h ! b), val = dot_grid (h ! a) (h ! b)\<rparr>])"
    using assms by (simp add: dot_rows_new dot_grid_def)
  show ?thesis
    using assms(1,2,3) by (simp add: dot_pair_def Matrix_ctor_pair on_obj_new z nth_append loop)
qed



subsection \<open>\<open>copy\<close>\<close>

lemma store_val_same [simp]: "store_val a (val (h ! a)) h = h"
  by (cases "a < length h") (simp_all add: store_val_def list_update_beyond)

lemma row_fill_down:
  assumes "row < length g"
  shows "for_down c (\<lambda>col g. grid_write g row col (f col)) g =
           Inr (g[row := map f [0..<c] @ drop c (g ! row)])"
proof -
  have "for_down c (\<lambda>col g. grid_write g row col (f col)) (g[row := g ! row]) =
      andThen (for_down c (\<lambda>col r. Inr (js_put r col (f col))) (g ! row)) (\<lambda>r. Inr (g[row := r]))"
    by (rule for_down_sim [where P = "\<lambda>_. True"]) (use assms in \<open>simp_all add: grid_write_def\<close>)
  then show ?thesis
    by (simp add: for_down_js_put)
qed

lemma for_down_none [simp]: "for_down n (\<lambda>k s. Inr s) s = Inr s"
  by (induction n) simp_all

lemma copy_row_grid:
  assumes "row < length src" "row < length g"
  shows "for_down c (\<lambda>col g. andThen (grid_read src row col) (\<lambda>v. grid_write g row col v)) g =
           Inr (g[row := map (js_get (src ! row)) [0..<c] @ drop c (g ! row)])"
  using assms row_fill_down [OF assms(2), of c "js_get (src ! row)"]
  by (simp add: grid_read_def)

lemma copy_row_grid_fails:
  assumes "length g \<le> row"
  shows "for_down (Suc c) (\<lambda>col g. andThen (grid_read src row col) (\<lambda>v. grid_write g row col v)) g =
           Inl TypeError"
  using assms by (simp add: grid_read_def grid_write_def)

lemma copy_rows_grid:
  assumes "n \<le> length src" "n \<le> length g"
  shows "for_down n (\<lambda>row.
           for_down c (\<lambda>col g. andThen (grid_read src row col) (\<lambda>v. grid_write g row col v))) g =
         Inr (map (\<lambda>row. map (js_get (src ! row)) [0..<c] @ drop c (g ! row)) [0..<n] @ drop n g)"
proof -
  let ?F = "\<lambda>row r. map (js_get (src ! row)) [0..<c] @ drop c r"
  have "for_down n (\<lambda>row.
           for_down c (\<lambda>col g. andThen (grid_read src row col) (\<lambda>v. grid_write g row col v))) (id g) =
        andThen (for_down n (\<lambda>row g. Inr (g[row := ?F row (g ! row)])) g) (\<lambda>g'. Inr (id g'))"
  proof (rule for_down_sim [where P = "\<lambda>g. n \<le> length g"])
    show "n \<le> length g" by (rule assms(2))
  next
    fix k and t :: grid
    assume "k < n" "n \<le> length t"
    then show "for_down c (\<lambda>col g. andThen (grid_read src k col) (\<lambda>v. grid_write g k col v)) (id t) =
        andThen (Inr (t[k := ?F k (t ! k)])) (\<lambda>t'. Inr (id t'))"
      using assms(1) by (simp add: copy_row_grid)
  next
    fix k and t t' :: grid
    assume "n \<le> length t" "Inr (t[k := ?F k (t ! k)]) = (Inr t' :: error + grid)"
    then show "n \<le> length t'" by auto
  qed
  then show ?thesis
    by (simp add: for_down_upd [OF assms(2), where F = ?F])
qed

lemma copy_rows_grid_fails:
  assumes "length g < n" "0 < c"
  shows "for_down n (\<lambda>row.
           for_down c (\<lambda>col g. andThen (grid_read src row col) (\<lambda>v. grid_write g row col v))) g =
         Inl TypeError"
proof -
  obtain n' c' where n: "n = Suc n'" and c: "c = Suc c'"
    using assms by (cases n; cases c) auto
  have "length g \<le> n'" using assms(1) n by simp
  then have "for_down (Suc c') (\<lambda>col g. andThen (grid_read src n' col) (\<lambda>v. grid_write g n' col v)) g =
      Inl TypeError"
    by (rule copy_row_grid_fails)
  then show ?thesis
    unfolding n c by (subst for_down_Suc) (simp only: andThen_Inl)
qed

lemma copy_cell_other:
  assumes "this < length h" "this \<noteq> m"
  shows "copy_cell this m row col (store_val this g h) =
     andThen (andThen (grid_read (val (h ! m)) row col) (\<lambda>v. grid_write g row col v))
       (\<lambda>g'. Inr (store_val this g' h))"
  using assms
  by (cases "grid_read (val (h ! m)) row col") (simp_all add: copy_cell_def andThen_def split: sum.splits)

lemma copy_from_other:
  assumes "this < length h" "this \<noteq> m"
  shows "copy_from this m h =
     andThen
       (for_down (rows (h ! m)) (\<lambda>row.
          for_down (cols (h ! m)) (\<lambda>col g.
            andThen (grid_read (val (h ! m)) row col) (\<lambda>v. grid_write g row col v))) (val (h ! this)))
       (\<lambda>g. Inr (store_val this g h))"
proof -
  let ?cell = "\<lambda>row col g. andThen (grid_read (val (h ! m)) row col) (\<lambda>v. grid_write g row col v)"
  have inner: "for_down c (\<lambda>col. copy_cell this m row col) (store_val this g h) =
      andThen (for_down c (?cell row) g) (\<lambda>g'. Inr (store_val this g' h))" for c row g
    by (rule for_down_sim [where P = "\<lambda>_. True"]) (simp_all add: copy_cell_other [OF assms])
  have "for_down n (\<lambda>row. for_down c (\<lambda>col. copy_cell this m row col)) (store_val this g h) =
      andThen (for_down n (\<lambda>row. for_down c (?cell row)) g) (\<lambda>g'. Inr (store_val this g' h))" for n c g
    by (rule for_down_sim [where P = "\<lambda>_. True"]) (simp_all add: inner)
  from this [of "rows (h ! m)" "cols (h ! m)" "val (h ! this)"] show ?thesis
    by (simp add: copy_from_def)
qed

lemma copy_from_other_eq:
  assumes "this < length h" "this \<noteq> m"
    "rows (h ! m) \<le> length (val (h ! m))" "rows (h ! m) \<le> length (val (h ! this))"
  shows "copy_from this m h = Inr (store_val this (overlay (h ! m) (val (h ! this))) h)"
  using assms by (simp add: copy_from_other copy_rows_grid overlay_def)

lemma copy_from_other_fails:
  assumes "this < length h" "this \<noteq> m"
    "length (val (h ! this)) < rows (h ! m)" "0 < cols (h ! m)"
  shows "copy_from this m h = Inl TypeError"
  using assms by (simp add: copy_from_other copy_rows_grid_fails)

lemma overlay_same_shape:
  assumes "shaped S" "length g = rows S" "\<forall>r \<in> set g. length r = cols S"
  shows "overlay S g = val S"
proof (rule nth_equalityI)
  show "length (overlay S g) = length (val S)"
    using assms by (simp add: overlay_def shaped_def)
next
  fix i
  assume "i < length (overlay S g)"
  then have i: "i < rows S" using assms by (simp add: overlay_def)
  then have "length (val S ! i) = cols S" "length (g ! i) = cols S"
    using assms by (simp_all add: shaped_def)
  then have "map (js_get (val S ! i)) [0..<cols S] @ drop (cols S) (g ! i) = val S ! i"
    by (auto simp: js_get_def intro!: nth_equalityI)
  then show "overlay S g ! i = val S ! i"
    using i assms by (simp add: overlay_def nth_append)
qed



lemma for_down_fix:
  "(\<And>k. k < n \<Longrightarrow> body k s = Inr s) \<Longrightarrow> for_down n body s = Inr s"
  by (induction n) simp_all

lemma shaped_row: "shaped M \<Longrightarrow> i < rows M \<Longrightarrow> length (val M ! i) = cols M"
  by (simp add: shaped_def)

lemma shaped_rows: "shaped M \<Longrightarrow> length (val M) = rows M"
  by (simp add: shaped_def)

lemma copy_cell_self:
  assumes "this < length h" "shaped (h ! this)" "row < rows (h ! this)" "col < cols (h ! this)"
  shows "copy_cell this this row col h = Inr h"
proof -
  have "js_put (val (h ! this) ! row) col (js_get (val (h ! this) ! row) col) = val (h ! this) ! row"
    using assms by (simp add: js_put_def arr_put_def js_get_def shaped_row)
  then show ?thesis
    using assms by (simp add: copy_cell_def grid_read_def grid_write_def shaped_rows)
qed

lemma copy_from_self:
  assumes "this < length h" "shaped (h ! this)"
  shows "copy_from this this h = Inr h"
  unfolding copy_from_def
  by (intro for_down_fix) (simp add: copy_cell_self assms)

lemma from_grid_eq:
  "from_grid d = Inr \<lparr>rows = length d, cols = length (hd d), val = coerced d\<rparr>"
  by (simp add: from_grid_def for_down_js_put for_down_put coerced_def)

lemma length_coerced [simp]: "length (coerced d) = length d"
  by (simp add: coerced_def)

lemma kept_js_or: "kept v \<Longrightarrow> js_or v (Num (Fin 0 0)) = v"
  by (auto simp: kept_def js_or_def)

lemma coerced_kept:
  assumes "\<forall>r \<in> set d. length r = length (hd d) \<and> (\<forall>v \<in> set r. kept v)"
  shows "coerced d = d"
  unfolding coerced_def
proof (rule nth_equalityI)
  fix i
  assume "i < length (map (\<lambda>row. map (\<lambda>col. js_or (js_get (d ! row) col) (Num (Fin 0 0))) [0..<length (hd d)]) [0..<length d])"
  then have i: "i < length d" by simp
  then have r: "length (d ! i) = length (hd d)" "\<forall>v \<in> set (d ! i). kept v"
    using assms by auto
  have "map (\<lambda>col. js_or (js_get (d ! i) col) (Num (Fin 0 0))) [0..<length (hd d)] = d ! i"
    using r by (auto simp: js_get_def kept_js_or intro!: nth_equalityI)
  then show "map (\<lambda>row. map (\<lambda>col. js_or (js_get (d ! row) col) (Num (Fin 0 0))) [0..<length (hd d)]) [0..<length d] ! i = d ! i"
    using i by simp
qed simp

lemma for_down_0 [simp]: "for_down 0 body = Inr"
  by (rule ext) simp

lemma overlay_empty:
  assumes "cols S = 0" "rows S \<le> length g"
  shows "overlay S g = g"
proof -
  have "map (\<lambda>row. g ! row) [0..<rows S] = take (rows S) g"
    using assms(2) by (auto intro!: nth_equalityI)
  then show ?thesis
    using assms(1) by (simp add: overlay_def)
qed

lemma copy_from_other_empty:
  assumes "this < length h" "this \<noteq> m" "cols (h ! m) = 0"
  shows "copy_from this m h = Inr h"
  using assms by (simp add: copy_from_other)

lemma copy_from_cases:
  assumes "this < length h" "this \<noteq> m" "rows (h ! m) \<le> length (val (h ! m))"
  shows "copy_from this m h =
     (if rows (h ! m) \<le> length (val (h ! this))
      then Inr (store_val this (overlay (h ! m) (val (h ! this))) h)
      else if cols (h ! m) = 0 then Inr h
      else Inl TypeError)"
  using assms
  by (simp add: copy_from_other_empty copy_from_other_eq copy_from_other_fails)

lemma Matrix_ctor_grid:
  assumes "d \<noteq> []"
  shows "Matrix_ctor h (AGrid d) =
     Inr (length h, h @ [\<lparr>rows = length d, cols = length (hd d), val = coerced d\<rparr>])"
  using assms by (simp add: Matrix_ctor_def from_grid_eq alloc_def)

lemma copy_ref_cases:
  assumes "this < length h" "m < length h" "shaped (h ! this)" "shaped (h ! m)"
  shows "copy this (ARef m) h =
            (if rows (h ! m) \<le> rows (h ! this)
             then Inr (store_val this (overlay (h ! m) (val (h ! this))) h)
             else if cols (h ! m) = 0 then Inr h
             else Inl TypeError)"
proof (cases "this = m")
  case True
  have "overlay (h ! m) (val (h ! m)) = val (h ! m)"
    using assms(4) by (intro overlay_same_shape) (simp_all add: shaped_def)
  then show ?thesis
    using True assms by (simp add: copy_def copy_from_self shaped_rows)
next
  case False
  then show ?thesis
    using assms by (simp add: copy_def copy_from_cases shaped_rows)
qed

lemma copy_grid_cases:
  assumes "this < length h" "shaped (h ! this)" and "d \<noteq> []"
  shows "copy this (AGrid d) h =
            (if length d \<le> rows (h ! this)
             then Inr (store_val this
                        (overlay \<lparr>rows = length d, cols = length (hd d), val = coerced d\<rparr>
                           (val (h ! this)))
                        (h @ [\<lparr>rows = length d, cols = length (hd d), val = coerced d\<rparr>]))
             else if length (hd d) = 0
             then Inr (h @ [\<lparr>rows = length d, cols = length (hd d), val = coerced d\<rparr>])
             else Inl TypeError)"
proof -
  let ?S = "\<lparr>rows = length d, cols = length (hd d), val = coerced d\<rparr>"
  have "copy this (AGrid d) h = copy_from this (length h) (h @ [?S])"
    by (simp add: copy_def Matrix_ctor_grid [OF assms(3)])
  also have "\<dots> = (if rows ((h @ [?S]) ! length h) \<le> length (val ((h @ [?S]) ! this))
      then Inr (store_val this (overlay ((h @ [?S]) ! length h) (val ((h @ [?S]) ! this))) (h @ [?S]))
      else if cols ((h @ [?S]) ! length h) = 0 then Inr (h @ [?S])
      else Inl TypeError)"
    using assms(1) by (intro copy_from_cases) simp_all
  finally show ?thesis
    using assms(1,2) by (simp add: nth_append shaped_rows)
qed

lemma for_up_done_fun [simp]: "\<not> i < n \<Longrightarrow> for_up i n body = Inr"
  by (rule ext) simp

lemma andThen_Inr_right [simp]: "andThen m Inr = m"
  by (cases m) simp_all

lemma dot_acc_foldl:
  "dot_acc ga gb row col m s =
     foldl (\<lambda>s k. js_add s (js_mul (js_get (ga ! row) k) (js_get (gb ! k) col))) s (rev [0..<m])"
  by (induction m arbitrary: s) simp_all

lemma dot_grid_sum:
  "dot_grid A B = map (\<lambda>row. map (\<lambda>col. dot_sum A B row col) [0..<cols B]) [0..<rows A]"
  by (simp add: dot_grid_def dot_sum_def cell_def dot_acc_foldl)

lemma Matrix_dot_pair:
  "Matrix_dot [a, b] h = andThen (dot_pair a b h) (\<lambda>(r, h'). Inr (Some r, h'))"
  by (simp add: Matrix_dot_def for_up_step dot_step_def)



lemma longest_row:
  assumes "g \<noteq> []" "\<forall>r \<in> set g. length r = c"
  shows "foldr (\<lambda>r n. max (length r) n) g 0 = c"
  using assms
proof (induction g)
  case Nil
  then show ?case by simp
next
  case (Cons r g)
  then show ?case by (cases g) auto
qed

lemma js_zip_shaped:
  assumes "shaped M" "0 < rows M"
  shows "js_zip (val M) = val (transposed M)"
proof -
  have ne: "val M \<noteq> []" using assms by (auto simp: shaped_def)
  have len: "\<forall>r \<in> set (val M). length r = cols M" using assms by (simp add: shaped_def)
  have "foldr (\<lambda>r n. max (length r) n) (val M) 0 = cols M"
    by (rule longest_row [OF ne len])
  moreover have "map (\<lambda>r. js_get r j) (val M) = map (\<lambda>i. val M ! i ! j) [0..<rows M]" if "j < cols M" for j
    using that assms(1) by (auto simp: shaped_def js_get_def intro!: nth_equalityI)
  ultimately show ?thesis
    by (simp add: js_zip_def transposed_def)
qed

lemma Matrix_T_eq:
  assumes "this < length h" "shaped (h ! this)" "0 < rows (h ! this)"
  shows "Matrix_T this h = Inr (length h, h @ [transposed (h ! this)])"
  using assms
  by (simp add: Matrix_T_def Matrix_ctor_pair nth_append js_zip_shaped) (simp add: transposed_def)

lemma shaped_transposed: "shaped (transposed M)"
  by (simp add: shaped_def transposed_def)

lemma transposed_twice:
  assumes "shaped M"
  shows "transposed (transposed M) = M"
proof -
  have "map (\<lambda>j. map (\<lambda>i. val (transposed M) ! i ! j) [0..<cols M]) [0..<rows M] = val M"
    using assms by (auto simp: transposed_def shaped_def intro!: nth_equalityI)
  then show ?thesis
    by (simp add: transposed_def)
qed



lemma for_up_inv:
  assumes "I i s" "i \<le> n"
    and "\<And>k t. i \<le> k \<Longrightarrow> k < n \<Longrightarrow> I k t \<Longrightarrow> \<exists>t'. body k t = Inr t' \<and> I (Suc k) t'"
  shows "\<exists>t. for_up i n body s = Inr t \<and> I n t"
  using assms
proof (induction "n - i" arbitrary: i s)
  case 0
  then show ?case by simp
next
  case (Suc d)
  then have lt: "i < n" by simp
  obtain t where t: "body i s = Inr t" "I (Suc i) t"
    using Suc.prems(3) [of i s] Suc.prems(1) lt by auto
  have "\<exists>u. for_up (Suc i) n body t = Inr u \<and> I n u"
  proof (rule Suc.hyps(1) [OF _ t(2)])
    show "d = n - Suc i" using Suc.hyps(2) by simp
    show "Suc i \<le> n" using lt by simp
    show "\<And>k t. Suc i \<le> k \<Longrightarrow> k < n \<Longrightarrow> I k t \<Longrightarrow> \<exists>t'. body k t = Inr t' \<and> I (Suc k) t'"
      using Suc.prems(3) by simp
  qed
  then show ?case
    by (simp add: for_up_step [OF lt] t(1))
qed

lemma length_overlay: "length g = rows S \<Longrightarrow> length (overlay S g) = rows S"
  by (simp add: overlay_def)

lemma length_dot_grid [simp]: "length (dot_grid A B) = rows A"
  by (simp add: dot_grid_def)

text \<open>The left operand of a later step: a new Matrix that the result is copied into.\<close>

lemma chain_left_operand:
  assumes "r < length h" "rows (h ! r) \<le> length (val (h ! r))"
  shows "andThen (Matrix_ctor h (APair (rows (h ! r)) (cols (h ! r)))) (\<lambda>(a, h1).
           andThen (copy a (ARef r) h1) (\<lambda>h2. Inr (a, h2))) =
         Inr (length h,
              h @ [\<lparr>rows = rows (h ! r), cols = cols (h ! r),
                    val = overlay (h ! r) (map (diag_row (cols (h ! r))) [0..<rows (h ! r)])\<rparr>])"
proof -
  let ?N = "\<lparr>rows = rows (h ! r), cols = cols (h ! r), val = map (diag_row (cols (h ! r))) [0..<rows (h ! r)]\<rparr>"
  have "copy_from (length h) r (h @ [?N]) =
      (if rows ((h @ [?N]) ! r) \<le> length (val ((h @ [?N]) ! length h))
       then Inr (store_val (length h) (overlay ((h @ [?N]) ! r) (val ((h @ [?N]) ! length h))) (h @ [?N]))
       else if cols ((h @ [?N]) ! r) = 0 then Inr (h @ [?N])
       else Inl TypeError)"
    using assms by (intro copy_from_cases) (simp_all add: nth_append)
  then have "copy_from (length h) r (h @ [?N]) =
      Inr (h @ [\<lparr>rows = rows (h ! r), cols = cols (h ! r), val = overlay (h ! r) (val ?N)\<rparr>])"
    using assms(1) by (simp add: nth_append)
  then show ?thesis
    by (simp add: Matrix_ctor_pair copy_def)
qed

lemma dot_step_first:
  assumes "a < length h" "b < length h" "args ! 0 = a" "args ! 1 = b"
    "rows (h ! a) \<le> length (val (h ! a))" "rows (h ! b) \<le> length (val (h ! b))"
  shows "dot_step args 0 (None, h) =
     (if cols (h ! a) = rows (h ! b)
      then Inr (Some (length h),
             h @ [\<lparr>rows = rows (h ! a), cols = cols (h ! b), val = dot_grid (h ! a) (h ! b)\<rparr>])
      else Inl (Throw (dot_message (cols (h ! a)) (rows (h ! b)))))"
  using assms by (simp add: dot_step_def dot_pair_eq) (simp add: dot_pair_def)

lemma dot_step_later:
  assumes "r < length h" "rows (h ! r) \<le> length (val (h ! r))"
    "b < length h" "args ! (Suc k) = b" "rows (h ! b) \<le> length (val (h ! b))"
  shows "\<exists>A. rows A = rows (h ! r) \<and> cols A = cols (h ! r) \<and>
     dot_step args k (Some r, h) =
     (if cols (h ! r) = rows (h ! b)
      then Inr (Some (Suc (length h)),
             h @ [A, \<lparr>rows = rows (h ! r), cols = cols (h ! b), val = dot_grid A (h ! b)\<rparr>])
      else Inl (Throw (dot_message (cols (h ! r)) (rows (h ! b)))))"
proof -
  let ?A = "\<lparr>rows = rows (h ! r), cols = cols (h ! r),
                    val = overlay (h ! r) (map (diag_row (cols (h ! r))) [0..<rows (h ! r)])\<rparr>"
  let ?h1 = "h @ [?A]"
  have lenA: "length (val ?A) = rows (h ! r)"
    by (simp add: length_overlay)
  have pair: "dot_pair (length h) b ?h1 =
     (if cols (h ! r) = rows (h ! b)
      then Inr (Suc (length h),
             h @ [?A, \<lparr>rows = rows (h ! r), cols = cols (h ! b), val = dot_grid ?A (h ! b)\<rparr>])
      else Inl (Throw (dot_message (cols (h ! r)) (rows (h ! b)))))"
  proof (cases "cols (h ! r) = rows (h ! b)")
    case True
    have "dot_pair (length h) b ?h1 =
      Inr (length ?h1, ?h1 @ [\<lparr>rows = rows (?h1 ! length h), cols = cols (?h1 ! b),
            val = dot_grid (?h1 ! length h) (?h1 ! b)\<rparr>])"
      using assms True lenA by (intro dot_pair_eq) (simp_all add: nth_append)
    then show ?thesis
      using assms(3) True by (simp add: nth_append)
  next
    case False
    then show ?thesis
      using assms(3) by (simp add: dot_pair_def nth_append)
  qed
  have "dot_step args k (Some r, h) = andThen (dot_pair (length h) b ?h1) (\<lambda>(r, h2). Inr (Some r, h2))"
    using chain_left_operand [OF assms(1,2)] assms(4) by (simp add: dot_step_def)
  then have "dot_step args k (Some r, h) =
     (if cols (h ! r) = rows (h ! b)
      then Inr (Some (Suc (length h)),
             h @ [?A, \<lparr>rows = rows (h ! r), cols = cols (h ! b), val = dot_grid ?A (h ! b)\<rparr>])
      else Inl (Throw (dot_message (cols (h ! r)) (rows (h ! b)))))"
    by (simp add: pair)
  then show ?thesis
    by (intro exI [of _ ?A]) simp
qed



lemma chain_step:
  assumes ops: "\<forall>a \<in> set args. a < length h \<and> rows (h ! a) \<le> length (val (h ! a))"
    and k: "Suc k < length args"
    and inv: "chain_inv h args k s"
  shows "if cols (h ! (args ! k)) = rows (h ! (args ! Suc k))
         then \<exists>t. dot_step args k s = Inr t \<and> chain_inv h args (Suc k) t
         else dot_step args k s =
                Inl (Throw (dot_message (cols (h ! (args ! k))) (rows (h ! (args ! Suc k)))))"
proof -
  let ?b = "args ! Suc k"
  have "?b \<in> set args" using k by (rule nth_mem)
  then have b: "?b < length h" "rows (h ! ?b) \<le> length (val (h ! ?b))"
    using ops by blast+
  show ?thesis
  proof (cases "k = 0")
    case True
    let ?a = "args ! 0"
    have "0 < length args" using k by linarith
    then have "?a \<in> set args" by (rule nth_mem)
    then have a: "?a < length h" "rows (h ! ?a) \<le> length (val (h ! ?a))"
      using ops by blast+
    have s: "s = (None, h)"
      using inv True by (cases s) (simp add: chain_inv_def)
    have "dot_step args 0 (None, h) =
     (if cols (h ! ?a) = rows (h ! (args ! Suc 0))
      then Inr (Some (length h),
             h @ [\<lparr>rows = rows (h ! ?a), cols = cols (h ! (args ! Suc 0)),
                   val = dot_grid (h ! ?a) (h ! (args ! Suc 0))\<rparr>])
      else Inl (Throw (dot_message (cols (h ! ?a)) (rows (h ! (args ! Suc 0))))))"
      using a b True by (intro dot_step_first) simp_all
    then show ?thesis
      using True s a(1) by (auto simp: chain_inv_def)
  next
    case False
    then obtain r ext where s: "s = (Some r, h @ ext)" and r: "r < length (h @ ext)"
      and rr: "rows ((h @ ext) ! r) = rows (h ! (args ! 0))"
      and rc: "cols ((h @ ext) ! r) = cols (h ! (args ! k))"
      and rl: "rows ((h @ ext) ! r) \<le> length (val ((h @ ext) ! r))"
      using inv by (cases s) (auto simp: chain_inv_def)
    let ?h = "h @ ext"
    have hb: "?h ! ?b = h ! ?b" using b(1) by (simp add: nth_append)
    obtain A where A: "rows A = rows (?h ! r)" "cols A = cols (?h ! r)"
      and step: "dot_step args k (Some r, ?h) =
       (if cols (?h ! r) = rows (?h ! ?b)
        then Inr (Some (Suc (length ?h)),
               ?h @ [A, \<lparr>rows = rows (?h ! r), cols = cols (?h ! ?b), val = dot_grid A (?h ! ?b)\<rparr>])
        else Inl (Throw (dot_message (cols (?h ! r)) (rows (?h ! ?b)))))"
      using dot_step_later [OF r rl, of ?b args k] b hb by auto
    show ?thesis
    proof (cases "cols (h ! (args ! k)) = rows (h ! ?b)")
      case True
      let ?P = "\<lparr>rows = rows (?h ! r), cols = cols (?h ! ?b), val = dot_grid A (?h ! ?b)\<rparr>"
      have res: "dot_step args k s = Inr (Some (Suc (length ?h)), h @ (ext @ [A, ?P]))"
        using step True s rc hb by simp
      have "(h @ ext @ [A, ?P]) ! Suc (length ?h) = ?P"
        by (simp add: nth_append)
      then have "chain_inv h args (Suc k) (Some (Suc (length ?h)), h @ (ext @ [A, ?P]))"
        using rr hb A(1) unfolding chain_inv_def
        by (simp del: append_assoc add: exI [of _ "ext @ [A, ?P]"])
      then show ?thesis
        using True res by simp
    next
      case False
      then show ?thesis
        using step s rc hb by simp
    qed
  qed
qed



lemma shaped_dot_grid:
  "shaped \<lparr>rows = rows A, cols = cols B, val = dot_grid A B\<rparr>"
  by (auto simp: shaped_def dot_grid_def)

lemma each_dot_check_one:
  "each (dot_check this) [arg] h =
     (if rows (h ! this) \<noteq> cols (h ! this) then Inl (Throw proto_dot_message)
      else andThen (same_dimensions this arg h) (\<lambda>eq.
             if \<not> eq then Inl (Throw proto_dot_message) else Inr h))"
  by (cases "same_dimensions this arg h") (simp_all add: dot_check_def)

lemma proto_dot_each:
  "proto_dot this args h =
     andThen (each (dot_check this) args h) (\<lambda>h1.
     andThen (Matrix_dot (this # refs_of args) h1) (\<lambda>(result, h2).
     andThen (copy this (case result of None \<Rightarrow> AUndefined | Some r \<Rightarrow> ARef r) h2) (\<lambda>h3.
     Inr (this, h3))))"
  by (simp add: proto_dot_def for_up_each)

lemma proto_dot_one:
  assumes "this < length h" "a < length h" "shaped (h ! this)"
    "rows (h ! this) = cols (h ! this)"
    "rows (h ! a) = rows (h ! this)" "cols (h ! a) = cols (h ! this)"
    "rows (h ! a) \<le> length (val (h ! a))"
  shows "proto_dot this [ARef a] h =
     Inr (this,
          store_val this (dot_grid (h ! this) (h ! a))
            (h @ [\<lparr>rows = rows (h ! this), cols = cols (h ! this),
                   val = dot_grid (h ! this) (h ! a)\<rparr>]))"
proof -
  let ?P = "\<lparr>rows = rows (h ! this), cols = cols (h ! this), val = dot_grid (h ! this) (h ! a)\<rparr>"
  let ?h1 = "h @ [?P]"
  have check: "each (dot_check this) [ARef a] h = Inr h"
    using assms(4,5,6) by (simp only: each_dot_check_one) (simp add: same_dimensions_def)
  have dot: "Matrix_dot [this, a] h = Inr (Some (length h), ?h1)"
    using assms by (simp add: Matrix_dot_pair dot_pair_eq shaped_rows)
  have "copy this (ARef (length h)) ?h1 =
      (if rows (?h1 ! length h) \<le> rows (?h1 ! this)
       then Inr (store_val this (overlay (?h1 ! length h) (val (?h1 ! this))) ?h1)
       else if cols (?h1 ! length h) = 0 then Inr ?h1
       else Inl TypeError)"
    using assms(1,3,6) shaped_dot_grid [of "h ! this" "h ! a"]
    by (intro copy_ref_cases) (simp_all add: nth_append)
  moreover have "overlay ?P (val (h ! this)) = val ?P"
    using shaped_dot_grid [of "h ! this" "h ! a"] assms(3,6)
    by (intro overlay_same_shape) (simp_all add: shaped_def)
  ultimately have cp: "copy this (ARef (length h)) ?h1 = Inr (store_val this (dot_grid (h ! this) (h ! a)) ?h1)"
    using assms(1) by (simp add: nth_append)
  show ?thesis
    by (simp add: proto_dot_each check dot cp del: each.simps)
qed



subsection \<open>The check of the prototype \<open>dot\<close>\<close>

lemma dot_check_cases:
  "dot_check this arg h = Inr h \<and> rows (h ! this) = cols (h ! this) \<and>
     same_dimensions this arg h = Inr True
   \<or> (\<exists>e. dot_check this arg h = Inl e) \<and>
     (rows (h ! this) \<noteq> cols (h ! this) \<or> same_dimensions this arg h \<noteq> Inr True)"
  by (cases "same_dimensions this arg h") (auto simp: dot_check_def)

lemma each_dot_check_cases:
  "each (dot_check this) args h = Inr h \<and>
     (args = [] \<or> rows (h ! this) = cols (h ! this) \<and>
        (\<forall>arg \<in> set args. same_dimensions this arg h = Inr True))
   \<or> (\<exists>e. each (dot_check this) args h = Inl e) \<and> args \<noteq> [] \<and>
     (rows (h ! this) \<noteq> cols (h ! this) \<or>
        (\<exists>arg \<in> set args. same_dimensions this arg h \<noteq> Inr True))"
proof (induction args)
  case Nil
  show ?case by simp
next
  case (Cons arg args)
  show ?case
    using dot_check_cases [of this arg h] Cons.IH by (cases args) auto
qed

lemma same_dimensions_True:
  "same_dimensions this arg h = Inr True \<longleftrightarrow>
     (\<exists>m. arg = ARef m \<and> rows (h ! m) = rows (h ! this) \<and> cols (h ! m) = cols (h ! this))"
  by (cases arg) (auto simp: same_dimensions_def)

lemma proto_dot_rejects:
  assumes "args \<noteq> []"
    and "rows (h ! this) \<noteq> cols (h ! this) \<or>
         (\<exists>arg \<in> set args. \<not> (\<exists>m. arg = ARef m \<and> rows (h ! m) = rows (h ! this) \<and>
            cols (h ! m) = cols (h ! this)))"
  shows "\<exists>e. proto_dot this args h = Inl e"
proof -
  have "\<exists>e. each (dot_check this) args h = Inl e"
    using each_dot_check_cases [of this args h] assms by (auto simp: same_dimensions_True)
  then show ?thesis
    by (auto simp: proto_dot_each)
qed

lemma proto_dot_accepts_only:
  assumes "proto_dot this args h = Inr x" "args \<noteq> []"
  shows "rows (h ! this) = cols (h ! this) \<and>
         (\<forall>arg \<in> set args. \<exists>m. arg = ARef m \<and> rows (h ! m) = rows (h ! this) \<and>
            cols (h ! m) = cols (h ! this))"
proof (rule ccontr)
  assume "\<not> ?thesis"
  then have "rows (h ! this) \<noteq> cols (h ! this) \<or>
         (\<exists>arg \<in> set args. \<not> (\<exists>m. arg = ARef m \<and> rows (h ! m) = rows (h ! this) \<and>
            cols (h ! m) = cols (h ! this)))"
    by blast
  from proto_dot_rejects [OF assms(2) this] show False
    using assms(1) by simp
qed



lemma length_diag_row: "i < c \<Longrightarrow> length (diag_row c i) = c"
  by (simp add: diag_row_in)

lemma saved_copy:
  assumes "this < length h" "shaped (h ! this)" "rows (h ! this) \<le> cols (h ! this)"
  shows "andThen (Matrix_ctor h (APair (rows (h ! this)) (cols (h ! this)))) (\<lambda>(a, h1).
           andThen (copy a (ARef this) h1) (\<lambda>h2. Inr (a, h2))) =
         Inr (length h, h @ [h ! this])"
proof -
  have "overlay (h ! this) (map (diag_row (cols (h ! this))) [0..<rows (h ! this)]) = val (h ! this)"
    using assms by (intro overlay_same_shape) (auto simp: length_diag_row)
  then show ?thesis
    using assms(1,2) by (simp add: chain_left_operand shaped_rows)
qed

lemma shaped_times_saved:
  "shaped ((M::matrix)\<lparr>val := times_saved M g\<rparr>)"
  by (auto simp: shaped_def times_saved_def dot_grid_def)

lemma shaped_funpow_times_saved:
  "shaped (M::matrix) \<Longrightarrow> shaped (M\<lparr>val := (times_saved M ^^ k) (val M)\<rparr>)"
  by (cases k) (simp_all add: shaped_times_saved)

lemma pow_step:
  assumes "this < length h" "shaped (h ! this)" "rows (h ! this) = cols (h ! this)"
    and "1 \<le> j" "pow_inv h this j h'"
  shows "\<exists>t. andThen (proto_dot this [ARef (length h)] h') (\<lambda>(r, h4). Inr h4) = Inr t \<and>
             pow_inv h this (Suc j) t"
proof -
  let ?M = "h ! this"
  let ?G = "(times_saved ?M ^^ (j - 1)) (val ?M)"
  have len: "length h' = length h + j" and this': "h' ! this = ?M\<lparr>val := ?G\<rparr>"
    and saved: "h' ! length h = ?M"
    and others: "\<forall>b<length h. b \<noteq> this \<longrightarrow> h' ! b = h ! b"
    using assms(5) by (simp_all add: pow_inv_def)
  have 1: "this < length h'" "length h < length h'" using assms(1,4) len by simp_all
  have 2: "shaped (h' ! this)"
    unfolding this' by (rule shaped_funpow_times_saved [OF assms(2)])
  have 3: "rows (h' ! this) = cols (h' ! this)" "rows (h' ! length h) = rows (h' ! this)"
    "cols (h' ! length h) = cols (h' ! this)" "rows (h' ! length h) \<le> length (val (h' ! length h))"
    using assms(2,3) by (simp_all add: this' saved shaped_rows)
  let ?P = "\<lparr>rows = rows (h' ! this), cols = cols (h' ! this),
             val = dot_grid (h' ! this) (h' ! length h)\<rparr>"
  let ?t = "store_val this (dot_grid (h' ! this) (h' ! length h)) (h' @ [?P])"
  have step: "proto_dot this [ARef (length h)] h' = Inr (this, ?t)"
    by (rule proto_dot_one [OF 1 2 3])
  have g: "dot_grid (h' ! this) (h' ! length h) = (times_saved ?M ^^ (Suc j - 1)) (val ?M)"
    using assms(4) by (cases j) (simp_all add: this' saved times_saved_def)
  have "pow_inv h this (Suc j) ?t"
    unfolding pow_inv_def
  proof (intro conjI allI impI)
    show "length ?t = length h + Suc j" using len by simp
    show "?t ! this = ?M\<lparr>val := (times_saved ?M ^^ (Suc j - 1)) (val ?M)\<rparr>"
      using 1(1) by (simp add: nth_append, simp only: g, simp add: this')
    show "?t ! length h = ?M"
      using 1 assms(1) by (simp add: nth_append saved)
    fix b assume "b < length h" "b \<noteq> this"
    then show "?t ! b = h ! b"
      using others len by (simp add: nth_append)
  qed
  then show ?thesis
    by (simp add: step)
qed



lemma pow_alt:
  "pow this exp h =
     andThen
       (andThen (Matrix_ctor h (APair (rows (h ! this)) (cols (h ! this)))) (\<lambda>(a, h1).
          andThen (copy a (ARef this) h1) (\<lambda>h2. Inr (a, h2)))) (\<lambda>(a, h2).
     andThen
       (if exp = 0 then on_obj this reset h2
        else for_up 1 (nat exp) (\<lambda>i h3.
               andThen (proto_dot this [ARef a] h3) (\<lambda>(r, h4). Inr h4)) h2) (\<lambda>h5.
     Inr (this, h5)))"
  by (simp add: pow_def andThen_def split: sum.splits prod.splits)

lemma pow_inv_start:
  assumes "this < length h"
  shows "pow_inv h this 1 (h @ [h ! this])"
  using assms by (simp add: pow_inv_def nth_append)



subsection \<open>The loops of \<open>add\<close>\<close>

lemma add_row_grid:
  assumes "row < length g" "row < length src"
  shows "for_up 0 c (\<lambda>col g.
            andThen (grid_read g row col) (\<lambda>x.
            andThen (grid_read src row col) (\<lambda>y.
            grid_write g row col (js_add x y)))) g =
         Inr (g[row := map (\<lambda>k. js_add (js_get (g ! row) k) (js_get (src ! row) k)) [0..<c]
                        @ drop c (g ! row)])"
proof -
  let ?F = "\<lambda>k x. js_add x (js_get (src ! row) k)"
  have "for_up 0 c (\<lambda>col g.
            andThen (grid_read g row col) (\<lambda>x.
            andThen (grid_read src row col) (\<lambda>y.
            grid_write g row col (js_add x y)))) (g[row := g ! row]) =
      andThen (for_up 0 c (\<lambda>col r. Inr (js_put r col (?F col (js_get r col)))) (g ! row))
        (\<lambda>r. Inr (g[row := r]))"
    by (rule for_up_sim [where P = "\<lambda>_. True"])
      (use assms in \<open>simp_all add: grid_read_def grid_write_def\<close>)
  then show ?thesis
    using for_up_js_upd [of 0 "g ! row" c ?F] by simp
qed

lemma add_rows_grid:
  assumes "n \<le> length g" "n \<le> length src"
  shows "for_up 0 n (\<lambda>row. for_up 0 c (\<lambda>col g.
            andThen (grid_read g row col) (\<lambda>x.
            andThen (grid_read src row col) (\<lambda>y.
            grid_write g row col (js_add x y))))) g =
         Inr (map (\<lambda>row. map (\<lambda>k. js_add (js_get (g ! row) k) (js_get (src ! row) k)) [0..<c]
                        @ drop c (g ! row)) [0..<n] @ drop n g)"
proof -
  let ?F = "\<lambda>row r. map (\<lambda>k. js_add (js_get r k) (js_get (src ! row) k)) [0..<c] @ drop c r"
  let ?cell = "\<lambda>row col g.
            andThen (grid_read g row col) (\<lambda>x.
            andThen (grid_read src row col) (\<lambda>y.
            grid_write g row col (js_add x y)))"
  have "for_up 0 n (\<lambda>row. for_up 0 c (?cell row)) (id g) =
        andThen (for_up 0 n (\<lambda>row g. Inr (g[row := ?F row (g ! row)])) g) (\<lambda>g'. Inr (id g'))"
  proof (rule for_up_sim [where P = "\<lambda>g. n \<le> length g"])
    show "n \<le> length g" by (rule assms(1))
  next
    fix k and t :: grid
    assume "k < n" "n \<le> length t"
    then show "for_up 0 c (?cell k) (id t) =
        andThen (Inr (t[k := ?F k (t ! k)])) (\<lambda>t'. Inr (id t'))"
      using assms(2) by (simp add: add_row_grid)
  next
    fix k and t t' :: grid
    assume "n \<le> length t" "Inr (t[k := ?F k (t ! k)]) = (Inr t' :: error + grid)"
    then show "n \<le> length t'" by auto
  qed
  then show ?thesis
    using for_up_upd [of 0 n g ?F] assms(1) by simp
qed

lemma add_cell_other:
  assumes "this < length h" "this \<noteq> m"
  shows "add_cell this m row col (store_val this g h) =
     andThen (andThen (grid_read g row col) (\<lambda>x.
              andThen (grid_read (val (h ! m)) row col) (\<lambda>y.
              grid_write g row col (js_add x y))))
       (\<lambda>g'. Inr (store_val this g' h))"
  using assms by (simp add: add_cell_def andThen_def split: sum.splits)

lemma add_loops_other:
  assumes "this < length h" "this \<noteq> m"
    "rows (h ! this) \<le> length (val (h ! this))" "rows (h ! this) \<le> length (val (h ! m))"
  shows "for_up 0 (rows (h ! this)) (\<lambda>row.
           for_up 0 (cols (h ! this)) (\<lambda>col. add_cell this m row col)) h =
         Inr (store_val this (sum_grid (h ! this) (val (h ! m))) h)"
proof -
  let ?cell = "\<lambda>row col g.
            andThen (grid_read g row col) (\<lambda>x.
            andThen (grid_read (val (h ! m)) row col) (\<lambda>y.
            grid_write g row col (js_add x y)))"
  have inner: "for_up 0 c (\<lambda>col. add_cell this m row col) (store_val this g h) =
      andThen (for_up 0 c (?cell row) g) (\<lambda>g'. Inr (store_val this g' h))" for c row g
    by (rule for_up_sim [where P = "\<lambda>_. True"]) (simp_all add: add_cell_other [OF assms(1,2)])
  have "for_up 0 n (\<lambda>row. for_up 0 c (\<lambda>col. add_cell this m row col)) (store_val this g h) =
      andThen (for_up 0 n (\<lambda>row. for_up 0 c (?cell row)) g) (\<lambda>g'. Inr (store_val this g' h))" for n c g
    by (rule for_up_sim [where P = "\<lambda>_. True"]) (simp_all add: inner)
  from this [of "rows (h ! this)" "cols (h ! this)" "val (h ! this)"] show ?thesis
    using assms(3,4) by (simp add: add_rows_grid sum_grid_def)
qed

lemma add_operand_num:
  "add_operand this (ANum s) h =
     Inr (length h, h @ [uniform (rows (h ! this)) (cols (h ! this)) (fill_of s)])"
  by (simp add: add_operand_def Matrix_ctor_pair on_obj_new zero_eq uniform_def fill_of_def)

lemma proto_add_each:
  "proto_add this args h = andThen (each (add_arg this) args h) (\<lambda>h1. Inr (this, h1))"
  by (simp add: proto_add_def for_up_each)

lemma add_arg_num:
  assumes "this < length h" "rows (h ! this) \<le> length (val (h ! this))"
  shows "add_arg this (ANum s) h =
     Inr (store_val this
            (sum_grid (h ! this) (replicate (rows (h ! this)) (replicate (cols (h ! this)) (fill_of s))))
            (h @ [uniform (rows (h ! this)) (cols (h ! this)) (fill_of s)]))"
proof -
  let ?M = "h ! this"
  let ?U = "uniform (rows ?M) (cols ?M) (fill_of s)"
  let ?h1 = "h @ [?U]"
  have "for_up 0 (rows (?h1 ! this)) (\<lambda>row.
           for_up 0 (cols (?h1 ! this)) (\<lambda>col. add_cell this (length h) row col)) ?h1 =
         Inr (store_val this (sum_grid (?h1 ! this) (val (?h1 ! length h))) ?h1)"
    using assms by (intro add_loops_other) (simp_all add: nth_append, simp add: uniform_def)
  then show ?thesis
    using assms(1) by (simp add: add_arg_def add_operand_num nth_append) (simp add: uniform_def)
qed

lemma add_arg_ref:
  assumes "this < length h" "this \<noteq> m"
    "rows (h ! this) \<le> length (val (h ! this))" "rows (h ! this) \<le> length (val (h ! m))"
    "rows (h ! m) = rows (h ! this)" "cols (h ! m) = cols (h ! this)"
  shows "add_arg this (ARef m) h = Inr (store_val this (sum_grid (h ! this) (val (h ! m))) h)"
  using add_loops_other [OF assms(1-4)] assms(5,6)
  by (simp add: add_arg_def add_operand_def same_dimensions_def)

lemma sum_grid_uniform:
  assumes "shaped M"
  shows "sum_grid M (replicate (rows M) (replicate (cols M) v)) = map (map (\<lambda>x. js_add x v)) (val M)"
proof -
  have "map (\<lambda>k. js_add (js_get (val M ! row) k) (js_get (replicate (rows M) (replicate (cols M) v) ! row) k))
          [0..<cols M] @ drop (cols M) (val M ! row) =
        map (\<lambda>x. js_add x v) (val M ! row)" if "row < rows M" for row
    using that shaped_row [OF assms that]
    by (auto simp: js_get_def intro!: nth_equalityI)
  then have "map (\<lambda>row. map (\<lambda>k. js_add (js_get (val M ! row) k)
                 (js_get (replicate (rows M) (replicate (cols M) v) ! row) k)) [0..<cols M]
               @ drop (cols M) (val M ! row)) [0..<rows M] =
        map (\<lambda>row. map (\<lambda>x. js_add x v) (val M ! row)) [0..<rows M]"
    by (simp cong: map_cong)
  also have "\<dots> = map (map (\<lambda>x. js_add x v)) (val M)"
    using shaped_rows [OF assms] by (auto intro!: nth_equalityI)
  finally show ?thesis
    by (simp add: sum_grid_def shaped_rows [OF assms])
qed

lemma digit_back: "k < 10 \<Longrightarrow> of_char (''0123456789'' ! k) - 48 = k"
proof -
  assume "k < 10"
  then have "k \<in> {0, 1, 2, 3, 4, 5, 6, 7, 8, 9}" by auto
  then show ?thesis by auto
qed

lemma read_show_nat: "read_nat (show_nat n) = n"
proof (induction n rule: show_nat.induct)
  case (1 n)
  show ?case
  proof (cases "n < 10")
    case True
    then show ?thesis
      by (subst show_nat.simps) (simp add: read_nat_def digit_back)
  next
    case False
    then have "read_nat (show_nat (n div 10)) = n div 10"
      using 1 by simp
    then show ?thesis
      using False
      by (subst show_nat.simps) (simp add: read_nat_def digit_back)
  qed
qed

subsection \<open>\<open>product\<close>\<close>

lemma proto_product_each:
  "proto_product this args h = andThen (each (product_arg this) args h) (\<lambda>h1. Inr (this, h1))"
  by (simp add: proto_product_def for_up_each)

lemma product_arg_skipped: "skipped arg \<Longrightarrow> product_arg this arg h = Inr h"
  by (cases arg) (simp_all add: product_arg_def)

lemma each_skip:
  assumes "\<And>s. f x s = Inr s"
  shows "each f (pre @ x # post) s = each f (pre @ post) s"
proof (induction pre arbitrary: s)
  case Nil
  show ?case by (simp add: assms)
next
  case (Cons y pre)
  show ?case
    by (cases "f y s") (simp_all add: Cons.IH)
qed

lemma Matrix_I_eq:
  "Matrix_I this h =
     Inr (AGrid (map (diag_row (cols (h ! this))) [0..<rows (h ! this)]),
          h @ [\<lparr>rows = rows (h ! this), cols = cols (h ! this),
                val = map (diag_row (cols (h ! this))) [0..<rows (h ! this)]\<rparr>])"
  by (simp add: Matrix_I_def Matrix_ctor_pair)

section \<open>The claims\<close>

subsection \<open>C1: \<open>Matrix.dot(A, B)\<close>\<close>

text \<open>
  C1. For a matrix \<open>A\<close> of shape \<open>n \<times> m\<close> and a matrix \<open>B\<close> of shape
  \<open>m \<times> p\<close>, \<open>Matrix.dot(A, B)\<close> returns a new object (the reference
  \<open>length h\<close>, which the store did not hold) of shape \<open>n \<times> p\<close> whose cell
  \<open>[row][col]\<close> is the sum over \<open>k\<close> of \<open>A[row][k] * B[k][col]\<close>: the plain
  accumulation \<open>dot_sum\<close> in the arithmetic of the numbers, every product and every
  partial sum rounded as a double, the index running from \<open>m - 1\<close> down to 0. The
  store afterwards is the old store with that one object appended, so \<open>A\<close>, \<open>B\<close>
  and every other object are as they were. All that is asked of the operands is that the
  rows they declare are there. The witness is the example of the claim:
  \<open>[[1,2],[3,4]]\<close> times \<open>[[5,6],[7,8]]\<close> is \<open>[[19,22],[43,50]]\<close>. The sums
  are those of the doubles, not of the integers (\<open>Matrix_dot_rounds\<close>: the square of
  94906267 is 9007199515875289, and the cell holds 9007199515875288).
\<close>

theorem Matrix_dot_two:
  assumes "a < length h" "b < length h"
    and "rows (h ! a) \<le> length (val (h ! a))" "rows (h ! b) \<le> length (val (h ! b))"
    and "cols (h ! a) = rows (h ! b)"
  shows "Matrix_dot [a, b] h =
     Inr (Some (length h),
          h @ [\<lparr>rows = rows (h ! a), cols = cols (h ! b),
                val = map (\<lambda>row. map (\<lambda>col. dot_sum (h ! a) (h ! b) row col)
                        [0..<cols (h ! b)]) [0..<rows (h ! a)]\<rparr>])"
  by (simp add: Matrix_dot_pair dot_pair_eq [OF assms(1,2,5,3,4)] dot_grid_sum)

theorem Matrix_dot_two_witness:
  "Matrix_dot [0, 1]
     [\<lparr>rows = 2, cols = 2, val = [[N 1, N 2], [N 3, N 4]]\<rparr>,
      \<lparr>rows = 2, cols = 2, val = [[N 5, N 6], [N 7, N 8]]\<rparr>] =
   Inr (Some 2,
     [\<lparr>rows = 2, cols = 2, val = [[N 1, N 2], [N 3, N 4]]\<rparr>,
      \<lparr>rows = 2, cols = 2, val = [[N 5, N 6], [N 7, N 8]]\<rparr>,
      \<lparr>rows = 2, cols = 2, val = [[N 19, N 22], [N 43, N 50]]\<rparr>])"
proof -
  let ?A = "\<lparr>rows = 2, cols = 2, val = [[N 1, N 2], [N 3, N 4]]\<rparr>"
  let ?B = "\<lparr>rows = 2, cols = 2, val = [[N 5, N 6], [N 7, N 8]]\<rparr>"
  have 1: "(0::nat) < length [?A, ?B]" "(1::nat) < length [?A, ?B]" by simp_all
  have 2: "rows ([?A, ?B] ! 0) \<le> length (val ([?A, ?B] ! 0))"
    "rows ([?A, ?B] ! 1) \<le> length (val ([?A, ?B] ! 1))" by simp_all
  have 3: "cols ([?A, ?B] ! 0) = rows ([?A, ?B] ! 1)" by simp
  have c: "dot_sum ?A ?B 0 0 = N 19" "dot_sum ?A ?B 0 1 = N 22"
    "dot_sum ?A ?B 1 0 = N 43" "dot_sum ?A ?B 1 1 = N 50"
    by code_simp+
  from Matrix_dot_two [OF 1 2 3] c show ?thesis
    by (simp add: eval_nat_numeral upt_rec)
qed

lemma Matrix_dot_rounds:
  "Matrix_dot [0, 0] [\<lparr>rows = 1, cols = 1, val = [[N 94906267]]\<rparr>] =
     Inr (Some 1, [\<lparr>rows = 1, cols = 1, val = [[N 94906267]]\<rparr>,
                   \<lparr>rows = 1, cols = 1, val = [[N 9007199515875288]]\<rparr>])"
  by code_simp

subsection \<open>C2: the identity pattern after construction and \<open>reset\<close>\<close>

text \<open>
  C2. The claim: after construction from \<open>[rows, cols]\<close>, and after \<open>reset()\<close>, the grid
  is the identity pattern and still has \<open>rows\<close> rows of exactly \<open>cols\<close> entries, for
  every \<open>rows \<ge> 1\<close> and \<open>cols \<ge> 1\<close>. The loop of \<open>reset\<close> runs over \<open>rows\<close>, not
  over \<open>min(rows, cols)\<close>: for \<open>new Matrix([3, 2])\<close> it writes \<open>value[2][2] = 1\<close>,
  which extends the third row to three entries. The claim holds when
  \<open>rows \<le> cols\<close> (\<open>Matrix_new_wide\<close>, \<open>reset_wide\<close>) and fails for every
  \<open>rows > cols\<close> (\<open>reset_tall_row\<close>).
\<close>

theorem reset_tall_grid:
  "Matrix_new (APair 3 2) =
     Inr \<lparr>rows = 3, cols = 2, val = [[N 1, N 0], [N 0, N 1], [N 0, N 0, N 1]]\<rparr>
   \<and> identity_pattern 3 2 = [[N 1, N 0], [N 0, N 1], [N 0, N 0]]
   \<and> reset \<lparr>rows = 3, cols = 2, val = [[N 5, N 6], [N 7, N 8], [N 9, N 4]]\<rparr> =
     Inr \<lparr>rows = 3, cols = 2, val = [[N 1, N 0], [N 0, N 1], [N 0, N 0, N 1]]\<rparr>"
  by code_simp

subsection \<open>C3: \<open>get\<close>\<close>

text \<open>
  C3. The claim: \<open>get(row, col)\<close> returns the stored scalar inside
  \<open>[0, rows) \<times> [0, cols)\<close> and fails with an IndexError outside. \<open>get\<close> has no check
  of its own. As amended: inside the range it returns the stored scalar; when \<open>row\<close>
  is outside \<open>[0, rows)\<close> it fails, with the runtime's TypeError for a property of
  \<open>undefined\<close>; when \<open>row\<close> is inside and \<open>col\<close> is outside \<open>[0, cols)\<close> it does
  not fail and returns \<open>undefined\<close>.
\<close>

theorem get_in_and_out_of_range:
  assumes "shaped M"
  shows "get M x y =
     (if 0 \<le> x \<and> x < int (rows M)
      then (if 0 \<le> y \<and> y < int (cols M) then Inr (val M ! nat x ! nat y) else Inr Undefined)
      else Inl TypeError)"
proof (cases "0 \<le> x \<and> x < int (rows M)")
  case True
  then have x: "nat x < length (val M)"
    using assms by (simp add: shaped_def nat_less_iff)
  then have "length (val M ! nat x) = cols M"
    using assms by (simp add: shaped_def)
  then show ?thesis
    using True x by (auto simp: get_def js_get_def nat_less_iff)
next
  case False
  then show ?thesis
    using assms by (auto simp: get_def shaped_def nat_less_iff)
qed

theorem get_in_and_out_of_range_witness:
  "shaped \<lparr>rows = 2, cols = 2, val = [[N 1, N 2], [N 3, N 4]]\<rparr>
   \<and> get \<lparr>rows = 2, cols = 2, val = [[N 1, N 2], [N 3, N 4]]\<rparr> 1 0 = Inr (N 3)
   \<and> get \<lparr>rows = 2, cols = 2, val = [[N 1, N 2], [N 3, N 4]]\<rparr> 2 0 = Inl TypeError
   \<and> get \<lparr>rows = 2, cols = 2, val = [[N 1, N 2], [N 3, N 4]]\<rparr> 1 (- 1) = Inr Undefined"
proof -
  let ?M = "\<lparr>rows = 2, cols = 2, val = [[N 1, N 2], [N 3, N 4]]\<rparr>"
  have s: "shaped ?M" by (simp add: shaped_def)
  show ?thesis
    using s get_in_and_out_of_range [OF s, of 1 0] get_in_and_out_of_range [OF s, of 2 0]
      get_in_and_out_of_range [OF s, of 1 "- 1"]
    by simp
qed

theorem get_column_out_of_range_counterexample:
  "get \<lparr>rows = 2, cols = 2, val = [[N 1, N 2], [N 3, N 4]]\<rparr> 0 5 = Inr Undefined"
  by (simp add: get_def js_get_def)

subsection \<open>C4: \<open>copy\<close>\<close>

text \<open>
  C4. The claim: \<open>copy\<close> overwrites the receiver's grid cell by cell with the values of
  a same-shaped source (a Matrix, or a raw grid coerced to one), and fails with a
  ShapeError for every source of another shape. \<open>copy\<close> compares no shapes. As amended:
  for a same-shaped source the receiver's grid becomes the source's; for any source,
  \<open>copy\<close> writes the source's cells over the receiver's rows (past their end when the
  source is wider) and keeps every other cell, and it fails only when the source has more
  rows than the receiver and at least one column, with the runtime's TypeError. A raw
  grid \<open>d\<close> is first made a Matrix, a new object in the store, whose grid is
  \<open>coerced d\<close>: that is \<open>d\<close> itself when \<open>d\<close> is rectangular and holds numbers
  other than \<open>-0\<close> and \<open>NaN\<close>, which the constructor's \<open>|| 0\<close> replaces by 0.
\<close>

theorem copy_without_shape_check:
  assumes "this < length h" "m < length h" "shaped (h ! this)" "shaped (h ! m)"
    and "d \<noteq> []"
  shows "(rows (h ! m) = rows (h ! this) \<and> cols (h ! m) = cols (h ! this) \<longrightarrow>
            copy this (ARef m) h = Inr (store_val this (val (h ! m)) h))
       \<and> (length d = rows (h ! this) \<and> length (hd d) = cols (h ! this) \<longrightarrow>
            copy this (AGrid d) h =
              Inr (store_val this (coerced d)
                     (h @ [\<lparr>rows = length d, cols = length (hd d), val = coerced d\<rparr>])))
       \<and> ((\<forall>r \<in> set d. length r = length (hd d) \<and> (\<forall>v \<in> set r. kept v)) \<longrightarrow> coerced d = d)
       \<and> copy this (ARef m) h =
            (if rows (h ! m) \<le> rows (h ! this)
             then Inr (store_val this (overlay (h ! m) (val (h ! this))) h)
             else if cols (h ! m) = 0 then Inr h
             else Inl TypeError)
       \<and> copy this (AGrid d) h =
            (if length d \<le> rows (h ! this)
             then Inr (store_val this
                        (overlay \<lparr>rows = length d, cols = length (hd d), val = coerced d\<rparr>
                           (val (h ! this)))
                        (h @ [\<lparr>rows = length d, cols = length (hd d), val = coerced d\<rparr>]))
             else if length (hd d) = 0
             then Inr (h @ [\<lparr>rows = length d, cols = length (hd d), val = coerced d\<rparr>])
             else Inl TypeError)"
proof -
  let ?S = "\<lparr>rows = length d, cols = length (hd d), val = coerced d\<rparr>"
  have shS: "shaped ?S" by (simp add: shaped_def coerced_def)
  have same: "overlay S (val (h ! this)) = val S"
    if "shaped S" "rows S = rows (h ! this)" "cols S = cols (h ! this)" for S
    using that assms(3) by (intro overlay_same_shape) (simp_all add: shaped_def)
  note ref = copy_ref_cases [OF assms(1-4)]
  note grid = copy_grid_cases [OF assms(1,3,5)]
  have c1: "copy this (ARef m) h = Inr (store_val this (val (h ! m)) h)"
    if "rows (h ! m) = rows (h ! this)" "cols (h ! m) = cols (h ! this)"
    using that same [OF assms(4)] by (simp add: ref)
  have c2: "copy this (AGrid d) h = Inr (store_val this (coerced d) (h @ [?S]))"
    if "length d = rows (h ! this)" "length (hd d) = cols (h ! this)"
    using that same [OF shS] by (simp add: grid)
  have c3: "coerced d = d"
    if "\<forall>r \<in> set d. length r = length (hd d) \<and> (\<forall>v \<in> set r. kept v)"
    using that by (rule coerced_kept)
  show ?thesis
    using c1 c2 c3 ref grid by blast
qed

theorem copy_without_shape_check_witness:
  "copy 0 (ARef 1)
     [\<lparr>rows = 2, cols = 2, val = [[N 1, N 0], [N 0, N 1]]\<rparr>,
      \<lparr>rows = 2, cols = 2, val = [[N 5, N 6], [N 7, N 8]]\<rparr>] =
   Inr [\<lparr>rows = 2, cols = 2, val = [[N 5, N 6], [N 7, N 8]]\<rparr>,
        \<lparr>rows = 2, cols = 2, val = [[N 5, N 6], [N 7, N 8]]\<rparr>]
   \<and> copy 0 (AGrid [[N 9, N 8], [N 7, N 6]])
     [\<lparr>rows = 2, cols = 2, val = [[N 1, N 0], [N 0, N 1]]\<rparr>,
      \<lparr>rows = 2, cols = 2, val = [[N 5, N 6], [N 7, N 8]]\<rparr>] =
   Inr [\<lparr>rows = 2, cols = 2, val = [[N 9, N 8], [N 7, N 6]]\<rparr>,
        \<lparr>rows = 2, cols = 2, val = [[N 5, N 6], [N 7, N 8]]\<rparr>,
        \<lparr>rows = 2, cols = 2, val = [[N 9, N 8], [N 7, N 6]]\<rparr>]
   \<and> copy 0 (AGrid [[Num NaN, N 8], [N 7]])
     [\<lparr>rows = 2, cols = 2, val = [[N 1, N 0], [N 0, N 1]]\<rparr>] =
   Inr [\<lparr>rows = 2, cols = 2, val = [[N 0, N 8], [N 7, N 0]]\<rparr>,
        \<lparr>rows = 2, cols = 2, val = [[N 0, N 8], [N 7, N 0]]\<rparr>]"
proof -
  let ?A = "\<lparr>rows = 2, cols = 2, val = [[N 1, N 0], [N 0, N 1]]\<rparr>"
  let ?M = "\<lparr>rows = 2, cols = 2, val = [[N 5, N 6], [N 7, N 8]]\<rparr>"
  let ?d = "[[N 9, N 8], [N 7, N 6]]"
  let ?e = "[[Num NaN, N 8], [N 7]]"
  have 1: "(0::nat) < length [?A, ?M]" "(1::nat) < length [?A, ?M]" by simp_all
  have 2: "shaped ([?A, ?M] ! 0)" "shaped ([?A, ?M] ! 1)" by (simp_all add: shaped_def)
  have 3: "?d \<noteq> []" by simp
  have k: "\<forall>r \<in> set ?d. length r = length (hd ?d) \<and> (\<forall>v \<in> set r. kept v)"
    by code_simp
  have 4: "(0::nat) < length [?A]" "shaped ([?A] ! 0)" "?e \<noteq> []" by (simp_all add: shaped_def)
  have e: "coerced ?e = [[N 0, N 8], [N 7, N 0]]" by code_simp
  note th = copy_without_shape_check [OF 1 2 3]
  have cd: "coerced ?d = ?d"
    using th [THEN conjunct2, THEN conjunct2, THEN conjunct1] k by blast
  have a: "copy 0 (ARef 1) [?A, ?M] = Inr [?M, ?M]"
    using th [THEN conjunct1] by (simp add: store_val_def)
  have b: "copy 0 (AGrid ?d) [?A, ?M] =
      Inr [\<lparr>rows = 2, cols = 2, val = ?d\<rparr>, ?M, \<lparr>rows = 2, cols = 2, val = ?d\<rparr>]"
    using th [THEN conjunct2, THEN conjunct1] cd by (simp add: store_val_def)
  have c: "copy 0 (AGrid ?e) [?A] =
      Inr [\<lparr>rows = 2, cols = 2, val = [[N 0, N 8], [N 7, N 0]]\<rparr>,
           \<lparr>rows = 2, cols = 2, val = [[N 0, N 8], [N 7, N 0]]\<rparr>]"
    using copy_without_shape_check [OF 4(1) 4(1) 4(2) 4(2) 4(3), THEN conjunct2, THEN conjunct1] e
    by (simp add: store_val_def)
  show ?thesis
    using a b c by simp
qed

theorem copy_other_shape_counterexample:
  "copy 0 (ARef 1)
     [\<lparr>rows = 2, cols = 2, val = [[N 1, N 0], [N 0, N 1]]\<rparr>,
      \<lparr>rows = 1, cols = 1, val = [[N 7]]\<rparr>] =
   Inr [\<lparr>rows = 2, cols = 2, val = [[N 7, N 0], [N 0, N 1]]\<rparr>,
        \<lparr>rows = 1, cols = 1, val = [[N 7]]\<rparr>]"
  by code_simp

subsection \<open>C5: the prototype \<open>dot\<close>\<close>

text \<open>
  C5. The claim: the prototype \<open>dot\<close> succeeds only for a square receiver and operands
  of the receiver's shape, and raises an error in every other call. The check stands
  inside the loop over the operands. With at least one operand the claim holds
  (\<open>proto_dot_rejects\<close>, \<open>proto_dot_accepts_only\<close>). With no operand nothing is
  checked: \<open>Matrix.dot\<close> of the receiver alone returns \<open>undefined\<close>, \<open>copy\<close> turns
  that into \<open>new Matrix([2, 2])\<close>, and the call returns normally on a receiver of
  shape \<open>2 \<times> 3\<close>, having written the \<open>2 \<times> 2\<close> identity over its first columns.
\<close>

theorem proto_dot_without_operand:
  "proto_dot 0 [] [\<lparr>rows = 2, cols = 3, val = [[N 1, N 2, N 3], [N 4, N 5, N 6]]\<rparr>] =
     Inr (0, [\<lparr>rows = 2, cols = 3, val = [[N 1, N 0, N 3], [N 0, N 1, N 6]]\<rparr>,
              \<lparr>rows = 2, cols = 2, val = [[N 1, N 0], [N 0, N 1]]\<rparr>])"
  by code_simp

subsection \<open>C6: the dimension error of \<open>Matrix.dot\<close>\<close>

text \<open>
  C6. The claim: for every adjacent pair of a chain with \<open>left.cols \<noteq> right.rows\<close>,
  \<open>Matrix.dot\<close> raises a DimensionError that reports the two mismatched extents, and
  it raises no such error when every adjacent pair has \<open>left.cols = right.rows\<close>. The
  chain is multiplied from the left and the first throw ends the call, so only one pair
  is ever reported. As amended: when every adjacent pair matches, \<open>Matrix.dot\<close>
  returns; when some pair does not, it throws the string
  \<open>Cannot compute the dot product of matrices of incompatible dimensions. c !== r\<close>
  where \<open>c\<close> and \<open>r\<close> are the decimal numerals of \<open>left.cols\<close> and
  \<open>right.rows\<close> of the first mismatched pair from the left (the columns of an
  intermediate result are those of its right operand); a later mismatched pair is not
  reported. The numerals read back as the two extents (\<open>read_nat\<close>). All that is asked
  of the operands is that the rows they declare are there. In the chain of the
  counterexample, of shapes \<open>1 \<times> 2\<close>, \<open>3 \<times> 1\<close> and \<open>2 \<times> 2\<close>, both
  pairs are mismatched and the message is \<open>2 !== 3\<close>: the extents 1 and 2 of the second
  pair are not reported.
\<close>

theorem Matrix_dot_chain_errors:
  assumes "\<forall>a \<in> set args. a < length h \<and> rows (h ! a) \<le> length (val (h ! a))"
  shows "((\<forall>i. Suc i < length args \<longrightarrow> cols (h ! (args ! i)) = rows (h ! (args ! Suc i))) \<longrightarrow>
            (\<exists>res h'. Matrix_dot args h = Inr (res, h')))
       \<and> (\<forall>k. Suc k < length args \<and> cols (h ! (args ! k)) \<noteq> rows (h ! (args ! Suc k)) \<and>
              (\<forall>i<k. cols (h ! (args ! i)) = rows (h ! (args ! Suc i))) \<longrightarrow>
            Matrix_dot args h =
              Inl (Throw (''Cannot compute the dot product of matrices of incompatible dimensions. ''
                     @ show_nat (cols (h ! (args ! k))) @ '' !== ''
                     @ show_nat (rows (h ! (args ! Suc k)))))
            \<and> read_nat (show_nat (cols (h ! (args ! k)))) = cols (h ! (args ! k))
            \<and> read_nat (show_nat (rows (h ! (args ! Suc k)))) = rows (h ! (args ! Suc k)))
       \<and> ((\<exists>i. Suc i < length args \<and> cols (h ! (args ! i)) \<noteq> rows (h ! (args ! Suc i))) \<longrightarrow>
            (\<exists>k. Suc k < length args \<and> cols (h ! (args ! k)) \<noteq> rows (h ! (args ! Suc k)) \<and>
              Matrix_dot args h =
                Inl (Throw (''Cannot compute the dot product of matrices of incompatible dimensions. ''
                       @ show_nat (cols (h ! (args ! k))) @ '' !== ''
                       @ show_nat (rows (h ! (args ! Suc k)))))))"
proof -
  note ops = assms
  have prefix: "\<exists>t. for_up 0 k (dot_step args) (None, h) = Inr t \<and> chain_inv h args k t"
    if "k < length args" "\<forall>i<k. cols (h ! (args ! i)) = rows (h ! (args ! Suc i))" for k
  proof (rule for_up_inv)
    show "chain_inv h args 0 (None, h)" by (simp add: chain_inv_def)
    show "0 \<le> k" by simp
    fix j t
    assume j: "0 \<le> j" "j < k" "chain_inv h args j t"
    then have "Suc j < length args" "cols (h ! (args ! j)) = rows (h ! (args ! Suc j))"
      using that by simp_all
    then show "\<exists>t'. dot_step args j t = Inr t' \<and> chain_inv h args (Suc j) t'"
      using chain_step [OF ops _ j(3)] by auto
  qed
  have good: "\<exists>res h'. Matrix_dot args h = Inr (res, h')"
    if "\<forall>i. Suc i < length args \<longrightarrow> cols (h ! (args ! i)) = rows (h ! (args ! Suc i))"
  proof (cases "args = []")
    case True
    then show ?thesis by (simp add: Matrix_dot_def)
  next
    case False
    then have "length args - 1 < length args" by simp
    moreover have "\<forall>i<length args - 1. cols (h ! (args ! i)) = rows (h ! (args ! Suc i))"
      using that by simp
    ultimately obtain t where "for_up 0 (length args - 1) (dot_step args) (None, h) = Inr t"
      using prefix by blast
    then show ?thesis
      by (cases t) (simp add: Matrix_dot_def)
  qed
  have bad: "Matrix_dot args h =
      Inl (Throw (dot_message (cols (h ! (args ! k))) (rows (h ! (args ! Suc k)))))"
    if k: "Suc k < length args" "cols (h ! (args ! k)) \<noteq> rows (h ! (args ! Suc k))"
      and before: "\<forall>i<k. cols (h ! (args ! i)) = rows (h ! (args ! Suc i))" for k
  proof -
    obtain t where t: "for_up 0 k (dot_step args) (None, h) = Inr t" "chain_inv h args k t"
      using prefix [of k] k(1) before by auto
    have "dot_step args k t =
        Inl (Throw (dot_message (cols (h ! (args ! k))) (rows (h ! (args ! Suc k)))))"
      using chain_step [OF ops k(1) t(2)] k(2) by simp
    then have "for_up k (length args - 1) (dot_step args) t =
        Inl (Throw (dot_message (cols (h ! (args ! k))) (rows (h ! (args ! Suc k)))))"
      using k(1) by (simp add: for_up_step)
    moreover have "for_up 0 (length args - 1) (dot_step args) (None, h) =
        andThen (for_up 0 k (dot_step args) (None, h)) (for_up k (length args - 1) (dot_step args))"
      using k(1) by (intro for_up_split) simp_all
    ultimately show ?thesis
      by (simp add: Matrix_dot_def t(1))
  qed
  have bad': "Matrix_dot args h =
      Inl (Throw (''Cannot compute the dot product of matrices of incompatible dimensions. ''
             @ show_nat (cols (h ! (args ! k))) @ '' !== '' @ show_nat (rows (h ! (args ! Suc k)))))"
    if "Suc k < length args" "cols (h ! (args ! k)) \<noteq> rows (h ! (args ! Suc k))"
      "\<forall>i<k. cols (h ! (args ! i)) = rows (h ! (args ! Suc i))" for k
    using bad [OF that] by (simp add: dot_message_def)
  have first: "\<exists>k. Suc k < length args \<and> cols (h ! (args ! k)) \<noteq> rows (h ! (args ! Suc k)) \<and>
      Matrix_dot args h =
        Inl (Throw (''Cannot compute the dot product of matrices of incompatible dimensions. ''
               @ show_nat (cols (h ! (args ! k))) @ '' !== '' @ show_nat (rows (h ! (args ! Suc k)))))"
    if "\<exists>i. Suc i < length args \<and> cols (h ! (args ! i)) \<noteq> rows (h ! (args ! Suc i))"
  proof -
    let ?P = "\<lambda>i. Suc i < length args \<and> cols (h ! (args ! i)) \<noteq> rows (h ! (args ! Suc i))"
    define k where "k = (LEAST i. ?P i)"
    have Pk: "?P k" unfolding k_def using that by (rule LeastI_ex)
    have "\<forall>i<k. \<not> ?P i" unfolding k_def using not_less_Least by blast
    then have "\<forall>i<k. cols (h ! (args ! i)) = rows (h ! (args ! Suc i))"
      using Pk by auto
    then show ?thesis
      using bad' [of k] Pk by blast
  qed
  have both: "Matrix_dot args h =
      Inl (Throw (''Cannot compute the dot product of matrices of incompatible dimensions. ''
             @ show_nat (cols (h ! (args ! k))) @ '' !== '' @ show_nat (rows (h ! (args ! Suc k)))))
      \<and> read_nat (show_nat (cols (h ! (args ! k)))) = cols (h ! (args ! k))
      \<and> read_nat (show_nat (rows (h ! (args ! Suc k)))) = rows (h ! (args ! Suc k))"
    if "Suc k < length args" "cols (h ! (args ! k)) \<noteq> rows (h ! (args ! Suc k))"
      "\<forall>i<k. cols (h ! (args ! i)) = rows (h ! (args ! Suc i))" for k
    using bad' [OF that] by (simp add: read_show_nat)
  show ?thesis
    using good both first by blast
qed

theorem Matrix_dot_chain_errors_witness:
  "Matrix_dot [0, 1, 2]
     [\<lparr>rows = 1, cols = 2, val = [[N 1, N 2]]\<rparr>,
      \<lparr>rows = 2, cols = 12, val = [replicate 12 (N 3), replicate 12 (N 4)]\<rparr>,
      \<lparr>rows = 2, cols = 2, val = [[N 5, N 6], [N 7, N 8]]\<rparr>] =
     Inl (Throw ''Cannot compute the dot product of matrices of incompatible dimensions. 12 !== 2'')
   \<and> read_nat ''12'' = 12 \<and> read_nat ''2'' = 2
   \<and> (\<exists>res h'. Matrix_dot [0, 1]
     [\<lparr>rows = 1, cols = 2, val = [[N 1, N 2]]\<rparr>,
      \<lparr>rows = 2, cols = 12, val = [replicate 12 (N 3), replicate 12 (N 4)]\<rparr>,
      \<lparr>rows = 2, cols = 2, val = [[N 5, N 6], [N 7, N 8]]\<rparr>] = Inr (res, h'))"
proof -
  let ?h = "[\<lparr>rows = 1, cols = 2, val = [[N 1, N 2]]\<rparr>,
      \<lparr>rows = 2, cols = 12, val = [replicate 12 (N 3), replicate 12 (N 4)]\<rparr>,
      \<lparr>rows = 2, cols = 2, val = [[N 5, N 6], [N 7, N 8]]\<rparr>]"
  have 3: "\<forall>a \<in> set [0, 1, 2]. a < length ?h \<and> rows (?h ! a) \<le> length (val (?h ! a))"
    by simp
  have 2: "\<forall>a \<in> set [0, 1]. a < length ?h \<and> rows (?h ! a) \<le> length (val (?h ! a))"
    by simp
  have s: "show_nat 12 = ''12''" "show_nat 2 = ''2''"
    by code_simp+
  have "Matrix_dot [0, 1, 2] ?h =
      Inl (Throw (''Cannot compute the dot product of matrices of incompatible dimensions. ''
             @ show_nat (cols (?h ! ([0, 1, 2] ! 1))) @ '' !== ''
             @ show_nat (rows (?h ! ([0, 1, 2] ! Suc 1)))))
      \<and> read_nat (show_nat (cols (?h ! ([0, 1, 2] ! 1)))) = cols (?h ! ([0, 1, 2] ! 1))
      \<and> read_nat (show_nat (rows (?h ! ([0, 1, 2] ! Suc 1)))) = rows (?h ! ([0, 1, 2] ! Suc 1))"
    by (rule Matrix_dot_chain_errors [OF 3, THEN conjunct2, THEN conjunct1, rule_format, of 1])
      (simp add: less_Suc_eq)
  then have a: "Matrix_dot [0, 1, 2] ?h =
      Inl (Throw ''Cannot compute the dot product of matrices of incompatible dimensions. 12 !== 2'')
      \<and> read_nat ''12'' = 12 \<and> read_nat ''2'' = 2"
    using s by simp
  have b: "\<exists>res h'. Matrix_dot [0, 1] ?h = Inr (res, h')"
    by (rule Matrix_dot_chain_errors [OF 2, THEN conjunct1, rule_format]) (simp add: less_Suc_eq)
  show ?thesis using a b by simp
qed

theorem Matrix_dot_second_pair_counterexample:
  "Matrix_dot [0, 1, 2]
     [\<lparr>rows = 1, cols = 2, val = [[N 1, N 2]]\<rparr>,
      \<lparr>rows = 3, cols = 1, val = [[N 3], [N 4], [N 5]]\<rparr>,
      \<lparr>rows = 2, cols = 2, val = [[N 5, N 6], [N 7, N 8]]\<rparr>] =
     Inl (Throw ''Cannot compute the dot product of matrices of incompatible dimensions. 2 !== 3'')"
  by code_simp

subsection \<open>C7: \<open>pow\<close>\<close>

text \<open>
  C7. For a square matrix \<open>A\<close>: \<open>pow(0)\<close> leaves the identity pattern in \<open>A\<close>
  whatever it held; \<open>pow(1)\<close> leaves the values of \<open>A\<close> as they were; for every
  \<open>e \<ge> 1\<close>, \<open>pow(e)\<close> returns the receiver, whose value is the first value
  multiplied \<open>e - 1\<close> times by the saved copy (\<open>times_saved\<close>, the product that
  \<open>Matrix.dot\<close> computes, in the arithmetic of the doubles), and the store has grown
  by \<open>e\<close> objects: the saved copy and the result of each of the \<open>e - 1\<close> products.
  No other object changes. The witness also runs \<open>[[3]].pow(34)\<close>: the 33 products
  leave the double 16677181699666568, where the integer power is 16677181699666569.
\<close>

theorem pow_linear:
  assumes "this < length h" "shaped (h ! this)" "rows (h ! this) = cols (h ! this)"
  shows "pow this 0 h =
           Inr (this, (h @ [h ! this])
                  [this := (h ! this)\<lparr>val := identity_pattern (rows (h ! this)) (cols (h ! this))\<rparr>])
       \<and> pow this 1 h = Inr (this, h @ [h ! this])
       \<and> (\<forall>e\<ge>1. \<exists>h'. pow this e h = Inr (this, h')
             \<and> length h' = length h + nat e
             \<and> h' ! this =
                 (h ! this)\<lparr>val := (times_saved (h ! this) ^^ (nat e - 1)) (val (h ! this))\<rparr>
             \<and> h' ! length h = h ! this
             \<and> (\<forall>b<length h. b \<noteq> this \<longrightarrow> h' ! b = h ! b))"
proof -
  let ?M = "h ! this"
  let ?h2 = "h @ [?M]"
  have le: "rows ?M \<le> cols ?M" using assms(3) by simp
  note copy = saved_copy [OF assms(1,2) le]
  have zero: "pow this 0 h =
      Inr (this, ?h2[this := ?M\<lparr>val := identity_pattern (rows ?M) (cols ?M)\<rparr>])"
    using assms(1) le
    by (simp add: pow_alt copy on_obj_def nth_append reset_wide shaped_rows [OF assms(2)])
  have one: "pow this 1 h = Inr (this, ?h2)"
    by (simp add: pow_alt copy)
  have more: "\<exists>h'. pow this e h = Inr (this, h')
             \<and> length h' = length h + nat e
             \<and> h' ! this = ?M\<lparr>val := (times_saved ?M ^^ (nat e - 1)) (val ?M)\<rparr>
             \<and> h' ! length h = ?M
             \<and> (\<forall>b<length h. b \<noteq> this \<longrightarrow> h' ! b = h ! b)" if e: "1 \<le> e" for e
  proof -
    have "\<exists>t. for_up 1 (nat e) (\<lambda>i h3.
               andThen (proto_dot this [ARef (length h)] h3) (\<lambda>(r, h4). Inr h4)) ?h2 = Inr t
             \<and> pow_inv h this (nat e) t"
    proof (rule for_up_inv)
      show "pow_inv h this 1 ?h2" by (rule pow_inv_start [OF assms(1)])
      show "1 \<le> nat e" using e by simp
      fix k t
      assume "1 \<le> k" "k < nat e" "pow_inv h this k t"
      then show "\<exists>t'. andThen (proto_dot this [ARef (length h)] t) (\<lambda>(r, h4). Inr h4) = Inr t' \<and>
          pow_inv h this (Suc k) t'"
        using pow_step [OF assms] by blast
    qed
    then obtain t where t: "for_up 1 (nat e) (\<lambda>i h3.
               andThen (proto_dot this [ARef (length h)] h3) (\<lambda>(r, h4). Inr h4)) ?h2 = Inr t"
      and inv: "pow_inv h this (nat e) t"
      by blast
    have "pow this e h = Inr (this, t)"
      using e t by (simp add: pow_alt copy)
    then show ?thesis
      using inv unfolding pow_inv_def by blast
  qed
  show ?thesis
    using zero one more by blast
qed

lemma times_saved_example:
  "(times_saved \<lparr>rows = 2, cols = 2, val = [[N 1, N 1], [N 0, N 1]]\<rparr> ^^ 2)
     [[N 1, N 1], [N 0, N 1]] = [[N 1, N 3], [N 0, N 1]]"
  by code_simp

lemma times_saved_rounds:
  "(times_saved \<lparr>rows = 1, cols = 1, val = [[N 3]]\<rparr> ^^ 33) [[N 3]] = [[N 16677181699666568]]"
  by code_simp

theorem pow_linear_witness:
  "pow 0 0 [\<lparr>rows = 2, cols = 2, val = [[N 1, N 1], [N 0, N 1]]\<rparr>] =
     Inr (0, [\<lparr>rows = 2, cols = 2, val = [[N 1, N 0], [N 0, N 1]]\<rparr>,
              \<lparr>rows = 2, cols = 2, val = [[N 1, N 1], [N 0, N 1]]\<rparr>])
   \<and> pow 0 1 [\<lparr>rows = 2, cols = 2, val = [[N 1, N 1], [N 0, N 1]]\<rparr>] =
     Inr (0, [\<lparr>rows = 2, cols = 2, val = [[N 1, N 1], [N 0, N 1]]\<rparr>,
              \<lparr>rows = 2, cols = 2, val = [[N 1, N 1], [N 0, N 1]]\<rparr>])
   \<and> (\<exists>h'. pow 0 3 [\<lparr>rows = 2, cols = 2, val = [[N 1, N 1], [N 0, N 1]]\<rparr>] = Inr (0, h')
        \<and> length h' = 4
        \<and> h' ! 0 = \<lparr>rows = 2, cols = 2, val = [[N 1, N 3], [N 0, N 1]]\<rparr>)
   \<and> (\<exists>h'. pow 0 34 [\<lparr>rows = 1, cols = 1, val = [[N 3]]\<rparr>] = Inr (0, h')
        \<and> length h' = 35
        \<and> h' ! 0 = \<lparr>rows = 1, cols = 1, val = [[N 16677181699666568]]\<rparr>)"
proof -
  let ?M = "\<lparr>rows = 2, cols = 2, val = [[N 1, N 1], [N 0, N 1]]\<rparr>"
  let ?T = "\<lparr>rows = 1, cols = 1, val = [[N 3]]\<rparr>"
  have 1: "(0::nat) < length [?M]" by simp
  have 2: "shaped ([?M] ! 0)" by (simp add: shaped_def)
  have 3: "rows ([?M] ! 0) = cols ([?M] ! 0)" by simp
  have i: "identity_pattern 2 2 = [[N 1, N 0], [N 0, N 1]]" by code_simp
  note th = pow_linear [OF 1 2 3]
  have a: "pow 0 0 [?M] = Inr (0, [\<lparr>rows = 2, cols = 2, val = [[N 1, N 0], [N 0, N 1]]\<rparr>, ?M])"
    using th [THEN conjunct1] i by simp
  have b: "pow 0 1 [?M] = Inr (0, [?M, ?M])"
    using th [THEN conjunct2, THEN conjunct1] by simp
  have "\<exists>h'. pow 0 3 [?M] = Inr (0, h')
             \<and> length h' = length [?M] + nat 3
             \<and> h' ! 0 = ([?M] ! 0)\<lparr>val := (times_saved ([?M] ! 0) ^^ (nat 3 - 1)) (val ([?M] ! 0))\<rparr>
             \<and> h' ! length [?M] = [?M] ! 0
             \<and> (\<forall>b<length [?M]. b \<noteq> 0 \<longrightarrow> h' ! b = [?M] ! b)"
    using th [THEN conjunct2, THEN conjunct2, rule_format, of 3] by simp
  then have c: "\<exists>h'. pow 0 3 [?M] = Inr (0, h') \<and> length h' = 4
        \<and> h' ! 0 = \<lparr>rows = 2, cols = 2, val = [[N 1, N 3], [N 0, N 1]]\<rparr>"
    using times_saved_example by (auto simp: numeral_2_eq_2)
  have 4: "(0::nat) < length [?T]" "shaped ([?T] ! 0)" "rows ([?T] ! 0) = cols ([?T] ! 0)"
    by (simp_all add: shaped_def)
  have "\<exists>h'. pow 0 34 [?T] = Inr (0, h')
             \<and> length h' = length [?T] + nat 34
             \<and> h' ! 0 = ([?T] ! 0)\<lparr>val := (times_saved ([?T] ! 0) ^^ (nat 34 - 1)) (val ([?T] ! 0))\<rparr>
             \<and> h' ! length [?T] = [?T] ! 0
             \<and> (\<forall>b<length [?T]. b \<noteq> 0 \<longrightarrow> h' ! b = [?T] ! b)"
    using pow_linear [OF 4, THEN conjunct2, THEN conjunct2, rule_format, of 34] by simp
  then have d: "\<exists>h'. pow 0 34 [?T] = Inr (0, h') \<and> length h' = 35
        \<and> h' ! 0 = \<lparr>rows = 1, cols = 1, val = [[N 16677181699666568]]\<rparr>"
    using times_saved_rounds by auto
  show ?thesis using a b c d by blast
qed

subsection \<open>C8: the transpose\<close>

text \<open>
  C8. The claim: for every matrix \<open>A\<close>, \<open>A.T.T\<close> equals \<open>A\<close>, and \<open>A.T\<close> is
  a new matrix with \<open>rows\<close> and \<open>cols\<close> swapped whose cell \<open>[j][i]\<close> is the
  source's cell \<open>[i][j]\<close>, the source being left as it was. \<open>T\<close> builds the result
  of the swapped extents and then replaces its grid by \<open>_.zip\<close> of the rows of the
  source, which has as many rows as the longest row of the source has cells. For a matrix
  of \<open>rows\<close> rows of \<open>cols\<close> cells each the claim holds (\<open>transpose_shaped\<close>).
  It fails on the matrices that the loop of \<open>reset\<close> leaves ragged, the defect of C2:
  \<open>A = new Matrix([3, 2])\<close> holds \<open>[[1,0],[0,1],[0,0,1]]\<close>, so \<open>A.T\<close> declares
  2 rows and holds the 3 rows \<open>[[1,0,0],[0,1,0],[undefined,undefined,1]]\<close>, and
  \<open>A.T.T\<close> holds \<open>[[1,0,undefined],[0,1,undefined],[0,0,1]]\<close>, which is not the
  grid of \<open>A\<close>. The source is not modified.
\<close>

theorem transpose_tall_identity:
  "Matrix_ctor [] (APair 3 2) =
     Inr (0, [\<lparr>rows = 3, cols = 2, val = [[N 1, N 0], [N 0, N 1], [N 0, N 0, N 1]]\<rparr>])
   \<and> Matrix_T 0 [\<lparr>rows = 3, cols = 2, val = [[N 1, N 0], [N 0, N 1], [N 0, N 0, N 1]]\<rparr>] =
     Inr (1, [\<lparr>rows = 3, cols = 2, val = [[N 1, N 0], [N 0, N 1], [N 0, N 0, N 1]]\<rparr>,
              \<lparr>rows = 2, cols = 3,
               val = [[N 1, N 0, N 0], [N 0, N 1, N 0], [Undefined, Undefined, N 1]]\<rparr>])
   \<and> Matrix_T 1 [\<lparr>rows = 3, cols = 2, val = [[N 1, N 0], [N 0, N 1], [N 0, N 0, N 1]]\<rparr>,
                 \<lparr>rows = 2, cols = 3,
                  val = [[N 1, N 0, N 0], [N 0, N 1, N 0], [Undefined, Undefined, N 1]]\<rparr>] =
     Inr (2, [\<lparr>rows = 3, cols = 2, val = [[N 1, N 0], [N 0, N 1], [N 0, N 0, N 1]]\<rparr>,
              \<lparr>rows = 2, cols = 3,
               val = [[N 1, N 0, N 0], [N 0, N 1, N 0], [Undefined, Undefined, N 1]]\<rparr>,
              \<lparr>rows = 3, cols = 2,
               val = [[N 1, N 0, Undefined], [N 0, N 1, Undefined], [N 0, N 0, N 1]]\<rparr>])"
  by code_simp

lemma transpose_shaped:
  assumes "this < length h" "shaped (h ! this)" "0 < rows (h ! this)" "0 < cols (h ! this)"
  shows "Matrix_T this h = Inr (length h, h @ [transposed (h ! this)])
       \<and> Matrix_T (length h) (h @ [transposed (h ! this)]) =
           Inr (Suc (length h), h @ [transposed (h ! this), h ! this])
       \<and> rows (transposed (h ! this)) = cols (h ! this)
       \<and> cols (transposed (h ! this)) = rows (h ! this)
       \<and> (\<forall>i<rows (h ! this). \<forall>j<cols (h ! this).
            val (transposed (h ! this)) ! j ! i = val (h ! this) ! i ! j)"
proof -
  let ?h1 = "h @ [transposed (h ! this)]"
  have 1: "Matrix_T this h = Inr (length h, ?h1)"
    by (rule Matrix_T_eq [OF assms(1-3)])
  have "Matrix_T (length h) ?h1 = Inr (length ?h1, ?h1 @ [transposed (?h1 ! length h)])"
    by (rule Matrix_T_eq) (use assms(4) in \<open>simp_all add: shaped_transposed\<close>, simp add: transposed_def)
  then have 2: "Matrix_T (length h) ?h1 = Inr (Suc (length h), h @ [transposed (h ! this), h ! this])"
    by (simp add: transposed_twice [OF assms(2)])
  show ?thesis using 1 2 by (simp add: transposed_def)
qed

lemma transpose_shaped_example:
  "Matrix_T 0 [\<lparr>rows = 2, cols = 3, val = [[N 1, N 2, N 3], [N 4, N 5, N 6]]\<rparr>] =
     Inr (1, [\<lparr>rows = 2, cols = 3, val = [[N 1, N 2, N 3], [N 4, N 5, N 6]]\<rparr>,
              \<lparr>rows = 3, cols = 2, val = [[N 1, N 4], [N 2, N 5], [N 3, N 6]]\<rparr>])
   \<and> Matrix_T 1 [\<lparr>rows = 2, cols = 3, val = [[N 1, N 2, N 3], [N 4, N 5, N 6]]\<rparr>,
                 \<lparr>rows = 3, cols = 2, val = [[N 1, N 4], [N 2, N 5], [N 3, N 6]]\<rparr>] =
     Inr (2, [\<lparr>rows = 2, cols = 3, val = [[N 1, N 2, N 3], [N 4, N 5, N 6]]\<rparr>,
              \<lparr>rows = 3, cols = 2, val = [[N 1, N 4], [N 2, N 5], [N 3, N 6]]\<rparr>,
              \<lparr>rows = 2, cols = 3, val = [[N 1, N 2, N 3], [N 4, N 5, N 6]]\<rparr>])"
proof -
  let ?M = "\<lparr>rows = 2, cols = 3, val = [[N 1, N 2, N 3], [N 4, N 5, N 6]]\<rparr>"
  have 1: "(0::nat) < length [?M]" by simp
  have 2: "shaped ([?M] ! 0)" by (simp add: shaped_def)
  have 3: "0 < rows ([?M] ! 0)" "0 < cols ([?M] ! 0)" by simp_all
  from transpose_shaped [OF 1 2 3] show ?thesis
    by (simp add: transposed_def upt_rec eval_nat_numeral)
qed

subsection \<open>C9: \<open>add\<close> with a scalar\<close>

text \<open>
  C9. The claim: for every matrix \<open>A\<close> and numeric scalar \<open>s\<close>, \<open>add\<close> broadcasts
  \<open>s\<close> to a uniform matrix of the shape of \<open>A\<close> and adds it cell by cell, so that
  every cell becomes \<open>A.get(i, j) + s\<close>, and the shape of the receiver is as it was.
  The uniform matrix is made by \<open>zero(s)\<close>, which begins with
  \<open>value || (value = 0)\<close>: a scalar that counts as false is replaced by 0. For \<open>NaN\<close>
  (a number: \<open>typeof NaN === 'number'\<close>) the matrix added is the zero matrix, and
  \<open>A.add(NaN)\<close> leaves \<open>[[1,2],[3,4]]\<close> as it is, where \<open>A.get(i, j) + NaN\<close>
  is \<open>NaN\<close> at every position. For every other scalar the claim holds, the sum
  being that of the doubles (\<open>add_scalar\<close>, where \<open>fill_of s\<close> is \<open>s\<close> unless
  \<open>s\<close> is \<open>NaN\<close> or a zero): the receiver becomes \<open>plus_scalar A s\<close>, and the
  free function \<open>Matrix.add(A, s)\<close> returns a new object and leaves \<open>A\<close> as it was.
\<close>

theorem add_nan_scalar:
  "proto_add 0 [ANum NaN] [\<lparr>rows = 2, cols = 2, val = [[N 1, N 2], [N 3, N 4]]\<rparr>] =
     Inr (0, [\<lparr>rows = 2, cols = 2, val = [[N 1, N 2], [N 3, N 4]]\<rparr>,
              \<lparr>rows = 2, cols = 2, val = [[N 0, N 0], [N 0, N 0]]\<rparr>])
   \<and> get \<lparr>rows = 2, cols = 2, val = [[N 1, N 2], [N 3, N 4]]\<rparr> 1 0 = Inr (N 3)
   \<and> js_add (N 3) (Num NaN) = Num NaN"
  by code_simp

lemma sum_grid_zeros:
  assumes "shaped M"
  shows "sum_grid \<lparr>rows = rows M, cols = cols M, val = replicate (rows M) (replicate (cols M) z)\<rparr> (val M) =
     map (map (\<lambda>x. js_add z x)) (val M)"
proof -
  have "map (\<lambda>k. js_add (js_get (replicate (rows M) (replicate (cols M) z) ! row) k)
                 (js_get (val M ! row) k)) [0..<cols M]
          @ drop (cols M) (replicate (rows M) (replicate (cols M) z) ! row) =
        map (\<lambda>x. js_add z x) (val M ! row)" if "row < rows M" for row
    using that shaped_row [OF assms that]
    by (auto simp: js_get_def intro!: nth_equalityI)
  then have "map (\<lambda>row. map (\<lambda>k. js_add (js_get (replicate (rows M) (replicate (cols M) z) ! row) k)
                 (js_get (val M ! row) k)) [0..<cols M]
               @ drop (cols M) (replicate (rows M) (replicate (cols M) z) ! row)) [0..<rows M] =
        map (\<lambda>row. map (\<lambda>x. js_add z x) (val M ! row)) [0..<rows M]"
    by (simp cong: map_cong)
  also have "\<dots> = map (map (\<lambda>x. js_add z x)) (val M)"
    using shaped_rows [OF assms] by (auto intro!: nth_equalityI)
  finally show ?thesis
    by (simp add: sum_grid_def)
qed

lemma add_scalar:
  assumes "this < length h" "shaped (h ! this)"
  shows "proto_add this [ANum s] h =
           Inr (this, (h @ [uniform (rows (h ! this)) (cols (h ! this)) (fill_of s)])
                  [this := plus_scalar (h ! this) (fill_of s)])
       \<and> Matrix_add [ARef this, ANum s] h =
           Inr (length h,
                h @ [(h ! this)\<lparr>val := map (map (\<lambda>x. js_add (js_add (Num (Fin 0 0)) x) (fill_of s)))
                                        (val (h ! this))\<rparr>,
                     uniform (rows (h ! this)) (cols (h ! this)) (fill_of s)])
       \<and> (truthy (Num s) \<longrightarrow> fill_of s = Num s)
       \<and> (\<forall>i<rows (h ! this). \<forall>j<cols (h ! this).
            get (plus_scalar (h ! this) (fill_of s)) (int i) (int j) =
              Inr (js_add (val (h ! this) ! i ! j) (fill_of s)))
       \<and> rows (plus_scalar (h ! this) (fill_of s)) = rows (h ! this)
       \<and> cols (plus_scalar (h ! this) (fill_of s)) = cols (h ! this)
       \<and> shaped (plus_scalar (h ! this) (fill_of s))"
proof -
  let ?M = "h ! this"
  let ?v = "fill_of s"
  let ?U = "uniform (rows ?M) (cols ?M) ?v"
  have le: "rows ?M \<le> length (val ?M)"
    using assms(2) by (simp add: shaped_def)
  have proto: "proto_add this [ANum s] h = Inr (this, (h @ [?U])[this := plus_scalar ?M ?v])"
    using assms(1)
    by (simp add: proto_add_each add_arg_num [OF assms(1) le] sum_grid_uniform [OF assms(2)]
        store_val_def nth_append plus_scalar_def)
  have free: "Matrix_add [ARef this, ANum s] h =
      Inr (length h,
           h @ [?M\<lparr>val := map (map (\<lambda>x. js_add (js_add (Num (Fin 0 0)) x) ?v)) (val ?M)\<rparr>, ?U])"
  proof -
    let ?Z = "\<lparr>rows = rows ?M, cols = cols ?M, val = replicate (rows ?M) (replicate (cols ?M) (Num (Fin 0 0)))\<rparr>"
    let ?h2 = "h @ [?Z]"
    let ?R = "?M\<lparr>val := map (map (\<lambda>x. js_add (Num (Fin 0 0)) x)) (val ?M)\<rparr>"
    have "add_arg (length h) (ARef this) ?h2 =
       Inr (store_val (length h) (sum_grid (?h2 ! length h) (val (?h2 ! this))) ?h2)"
      using assms(1) le by (intro add_arg_ref) (simp_all add: nth_append)
    then have first: "add_arg (length h) (ARef this) ?h2 = Inr (h @ [?R])"
      using assms(1) by (simp add: nth_append sum_grid_zeros [OF assms(2)])
    let ?h3 = "h @ [?R]"
    have shR: "shaped ?R"
      using assms(2) by (simp add: shaped_def)
    have sg: "sum_grid ?R (replicate (rows ?M) (replicate (cols ?M) ?v)) =
        map (map (\<lambda>x. js_add (js_add (Num (Fin 0 0)) x) ?v)) (val ?M)"
      using sum_grid_uniform [OF shR, of ?v] by (simp add: comp_def)
    have "add_arg (length h) (ANum s) ?h3 =
       Inr (store_val (length h)
            (sum_grid (?h3 ! length h)
               (replicate (rows (?h3 ! length h)) (replicate (cols (?h3 ! length h)) ?v)))
            (?h3 @ [uniform (rows (?h3 ! length h)) (cols (?h3 ! length h)) ?v]))"
      using shR by (intro add_arg_num) (simp_all add: shaped_def)
    then have second: "add_arg (length h) (ANum s) ?h3 =
        Inr (h @ [?M\<lparr>val := map (map (\<lambda>x. js_add (js_add (Num (Fin 0 0)) x) ?v)) (val ?M)\<rparr>, ?U])"
      using sg by (simp add: store_val_def nth_append)
    show ?thesis
      by (simp add: Matrix_add_def Matrix_ctor_pair on_obj_new zero_eq js_or_def proto_add_each
          first second)
  qed
  have fill: "truthy (Num s) \<longrightarrow> ?v = Num s"
    by (simp add: fill_of_def js_or_def)
  have cells: "\<forall>i<rows ?M. \<forall>j<cols ?M.
      get (plus_scalar ?M ?v) (int i) (int j) = Inr (js_add (val ?M ! i ! j) ?v)"
    using assms(2) by (simp add: get_def plus_scalar_def js_get_def shaped_def)
  have sh: "shaped (plus_scalar ?M ?v)"
    using assms(2) by (simp add: shaped_def plus_scalar_def)
  show ?thesis
    using proto free fill cells sh by (simp add: plus_scalar_def)
qed

lemma add_scalar_example:
  "proto_add 0 [ANum (dbl 4)] [\<lparr>rows = 2, cols = 2, val = [[N 1, N 2], [N 3, N 4]]\<rparr>] =
     Inr (0, [\<lparr>rows = 2, cols = 2, val = [[N 5, N 6], [N 7, N 8]]\<rparr>,
              \<lparr>rows = 2, cols = 2, val = [[N 4, N 4], [N 4, N 4]]\<rparr>])
   \<and> Matrix_add [ARef 0, ANum (dbl 4)] [\<lparr>rows = 2, cols = 2, val = [[N 1, N 2], [N 3, N 4]]\<rparr>] =
     Inr (1, [\<lparr>rows = 2, cols = 2, val = [[N 1, N 2], [N 3, N 4]]\<rparr>,
              \<lparr>rows = 2, cols = 2, val = [[N 5, N 6], [N 7, N 8]]\<rparr>,
              \<lparr>rows = 2, cols = 2, val = [[N 4, N 4], [N 4, N 4]]\<rparr>])
   \<and> proto_add 0 [ANum (dbl 1)] [\<lparr>rows = 1, cols = 2, val = [[N 9007199254740992, N 1]]\<rparr>] =
     Inr (0, [\<lparr>rows = 1, cols = 2, val = [[N 9007199254740992, N 2]]\<rparr>,
              \<lparr>rows = 1, cols = 2, val = [[N 1, N 1]]\<rparr>])"
  by code_simp

subsection \<open>C10: operands that \<open>product\<close> skips\<close>

text \<open>
  C10. The claim: in either form of \<open>product\<close>, every operand that is neither a number
  nor a Matrix, such as the array of rows that \<open>I\<close> returns, is skipped without an
  error and without a change of the running result. The first operand of the free
  function is not an operand of the loop: \<open>Matrix.product\<close> reads its \<open>dimensions\<close>
  and copies it into the new result, so a grid in that place is coerced and copied, and
  a \<open>3 \<times> 3\<close> grid there ends in a TypeError (the result was built from
  \<open>undefined\<close> dimensions, as \<open>2 \<times> 2\<close>). As amended: the claim for every operand
  of the prototype \<open>product\<close> and for every operand after the first of
  \<open>Matrix.product\<close>.
\<close>

theorem product_skips_other_operands:
  assumes "skipped arg"
  shows "proto_product this (pre @ arg # post) h = proto_product this (pre @ post) h
       \<and> proto_product this [arg] h = Inr (this, h)
       \<and> Matrix_product (first # pre @ arg # post) h = Matrix_product (first # pre @ post) h
       \<and> (\<exists>g h'. Matrix_I a h = Inr (AGrid g, h') \<and> skipped (AGrid g) \<and>
            proto_product this [AGrid g] h' = Inr (this, h'))"
proof -
  have skip: "each (product_arg r) (pre @ arg # post) s = each (product_arg r) (pre @ post) s" for r s
    by (rule each_skip) (simp add: product_arg_skipped [OF assms])
  have 1: "proto_product this (pre @ arg # post) h = proto_product this (pre @ post) h"
    by (simp only: proto_product_each skip)
  have 2: "proto_product this [arg] h = Inr (this, h)"
    by (simp add: proto_product_each product_arg_skipped [OF assms])
  have eq: "proto_product r (pre @ arg # post) = proto_product r (pre @ post)" for r
    by (rule ext) (simp only: proto_product_each skip)
  have 3: "Matrix_product (first # pre @ arg # post) h = Matrix_product (first # pre @ post) h"
    by (simp add: Matrix_product_def eq)
  have 4: "\<exists>g h'. Matrix_I a h = Inr (AGrid g, h') \<and> skipped (AGrid g) \<and>
            proto_product this [AGrid g] h' = Inr (this, h')"
    by (simp add: Matrix_I_eq proto_product_each product_arg_skipped)
  show ?thesis using 1 2 3 4 by blast
qed

theorem product_skips_other_operands_witness:
  "proto_product 0 [ANum (dbl 3), AGrid [[N 1, N 0], [N 0, N 1]]]
     [\<lparr>rows = 2, cols = 2, val = [[N 1, N 2], [N 3, N 4]]\<rparr>] =
   Inr (0, [\<lparr>rows = 2, cols = 2, val = [[N 3, N 6], [N 9, N 12]]\<rparr>])
   \<and> Matrix_product [ARef 0, AGrid [[N 1, N 0], [N 0, N 1]]]
     [\<lparr>rows = 2, cols = 2, val = [[N 1, N 2], [N 3, N 4]]\<rparr>] =
   Inr (1, [\<lparr>rows = 2, cols = 2, val = [[N 1, N 2], [N 3, N 4]]\<rparr>,
            \<lparr>rows = 2, cols = 2, val = [[N 1, N 2], [N 3, N 4]]\<rparr>])"
proof -
  let ?M = "\<lparr>rows = 2, cols = 2, val = [[N 1, N 2], [N 3, N 4]]\<rparr>"
  let ?g = "AGrid [[N 1, N 0], [N 0, N 1]]"
  have s: "skipped ?g" by simp
  have a0: "proto_product 0 [ANum (dbl 3)] [?M] =
      Inr (0, [\<lparr>rows = 2, cols = 2, val = [[N 3, N 6], [N 9, N 12]]\<rparr>])"
    by code_simp
  have b0: "Matrix_product [ARef 0] [?M] = Inr (1, [?M, ?M])"
    by code_simp
  have a: "proto_product 0 ([ANum (dbl 3)] @ ?g # []) [?M] = proto_product 0 ([ANum (dbl 3)] @ []) [?M]"
    using product_skips_other_operands [OF s, of 0 "[ANum (dbl 3)]" "[]" "[?M]"] by blast
  have b: "Matrix_product (ARef 0 # [] @ ?g # []) [?M] = Matrix_product (ARef 0 # [] @ []) [?M]"
    using product_skips_other_operands [OF s, of 0 "[]" "[]" "[?M]" "ARef 0"] by blast
  show ?thesis
    using a b a0 b0 by simp
qed

theorem product_first_operand_counterexample:
  "Matrix_product [AGrid [[N 1, N 0, N 0], [N 0, N 1, N 0], [N 0, N 0, N 1]]] [] =
     Inl TypeError"
  by code_simp

end
